theory Spec2Isabelle
  imports Main "HOL-Library.Word" "HOL-Library.Multiset"
begin

unbundle bit_operations_syntax

chapter \<open>Definitions\<close>

text \<open>\<^verbatim>\<open>std::size_t\<close>, 64 bits wide.\<close>

type_synonym size_type = "64 word"

section \<open>Errors\<close>

text \<open>
  The ways in which a call of the modelled code fails to complete normally.
  \<^item> \<open>Assertion_failure\<close>: a \<^verbatim>\<open>TA_ASSERT\<close> whose condition is false;
  \<^item> \<open>Null_dereference\<close>: \<^verbatim>\<open>*op_\<close> on an empty \<^verbatim>\<open>std::shared_ptr\<close>.
\<close>

datatype error = Assertion_failure | Null_dereference

text \<open>
  Modelled from the spec: the macro \<^verbatim>\<open>TA_ASSERT\<close> (TiledArray/error.h is not among the
  sources). Section 7 of the specification: programming-error conditions fail loudly,
  assertion-style. A true condition lets the caller continue, a false one ends the call
  with a failure.
\<close>

definition TA_ASSERT :: "bool \<Rightarrow> error + unit" where
  "TA_ASSERT c = (if c then Inr () else Inl Assertion_failure)"

section \<open>vector\_op.h\<close>

text \<open>
  \<^verbatim>\<open>#define TILEDARRAY_CACHELINE_SIZE 64\<close> and
  \<^verbatim>\<open>typedef std::integral_constant<std::size_t,
     TILEDARRAY_CACHELINE_SIZE / sizeof(double)> LoopUnwind;\<close>
  with \<^verbatim>\<open>sizeof(double)\<close> being 8, the size of an IEEE 754 double.
  \<^verbatim>\<open>TILEDARRAY_LOOP_UNWIND\<close> is \<^verbatim>\<open>LoopUnwind::value\<close>.
\<close>

definition TILEDARRAY_CACHELINE_SIZE :: nat where
  "TILEDARRAY_CACHELINE_SIZE = 64"

definition sizeof_double :: nat where
  "sizeof_double = 8"

definition TILEDARRAY_LOOP_UNWIND :: nat where
  "TILEDARRAY_LOOP_UNWIND = TILEDARRAY_CACHELINE_SIZE div sizeof_double"

text \<open>
  A pointer into an array: the contents of the array and the position of the element
  the pointer is at. \<open>element p k\<close> is \<^verbatim>\<open>p[k]\<close>, which is there only inside the array: an
  access outside of it has no defined behaviour, and a call that makes one has no result
  (\<open>None\<close>). \<open>assign p k v\<close> is the array after \<^verbatim>\<open>p[k] = v\<close>, and \<open>ptr_plus p i\<close> is
  \<^verbatim>\<open>p + i\<close>.
\<close>

type_synonym 'a ptr = "'a list \<times> nat"

definition element :: "'a ptr \<Rightarrow> nat \<Rightarrow> 'a option" where
  "element p k = (if snd p + k < length (fst p) then Some (fst p ! (snd p + k)) else None)"

definition assign :: "'a ptr \<Rightarrow> nat \<Rightarrow> 'a \<Rightarrow> 'a ptr" where
  "assign p k v = ((fst p)[snd p + k := v], snd p)"

definition ptr_plus :: "'a ptr \<Rightarrow> nat \<Rightarrow> 'a ptr" where
  "ptr_plus p i = (fst p, snd p + i)"

text \<open>
  The operation handed to the loops takes a reference to an element of the result and
  the arguments by value. Here it takes the element and returns the element as the call
  leaves it; it also takes and returns a state, for what the operation does beyond that.
  \<open>call_op1\<close> is \<^verbatim>\<open>op(result[k], arg[k])\<close> and \<open>call_op2\<close> is
  \<^verbatim>\<open>op(result[k], left[k], right[k])\<close>.
\<close>

definition call_op1 ::
  "('r \<Rightarrow> 'a \<Rightarrow> 's \<Rightarrow> 'r \<times> 's) \<Rightarrow> 'r ptr \<Rightarrow> 'a ptr \<Rightarrow> nat \<Rightarrow> 's \<Rightarrow> ('r ptr \<times> 's) option" where
  "call_op1 op result arg k s =
     (case (element result k, element arg k) of
        (Some x, Some a) \<Rightarrow> (case op x a s of (x', s') \<Rightarrow> Some (assign result k x', s'))
      | _ \<Rightarrow> None)"

definition call_op2 ::
  "('r \<Rightarrow> 'a \<Rightarrow> 'b \<Rightarrow> 's \<Rightarrow> 'r \<times> 's) \<Rightarrow> 'r ptr \<Rightarrow> 'a ptr \<Rightarrow> 'b ptr \<Rightarrow> nat \<Rightarrow> 's \<Rightarrow>
   ('r ptr \<times> 's) option" where
  "call_op2 op result left right k s =
     (case (element result k, element left k, element right k) of
        (Some x, Some a, Some b) \<Rightarrow>
          (case op x a b s of (x', s') \<Rightarrow> Some (assign result k x', s'))
      | _ \<Rightarrow> None)"

text \<open>
  \<^verbatim>\<open>VectorOpUnwind<N>::for_each\<close>, for one and for two arguments:
  \<^verbatim>\<open>offset = TILEDARRAY_LOOP_UNWIND - N - 1ul\<close>; \<^verbatim>\<open>op(result[offset], args[offset]...)\<close>;
  then \<^verbatim>\<open>VectorOpUnwind<N - 1>::for_each\<close>, and for \<^verbatim>\<open>VectorOpUnwind<0>\<close> the call at
  \<^verbatim>\<open>offset = TILEDARRAY_LOOP_UNWIND - 1ul\<close> alone. The template is instantiated at
  \<^verbatim>\<open>TILEDARRAY_LOOP_UNWIND - 1\<close> only, where the subtractions do not wrap around.
\<close>

fun VectorOpUnwind_for_each1 ::
  "nat \<Rightarrow> ('r \<Rightarrow> 'a \<Rightarrow> 's \<Rightarrow> 'r \<times> 's) \<Rightarrow> 'r ptr \<Rightarrow> 'a ptr \<Rightarrow> 's \<Rightarrow> ('r ptr \<times> 's) option" where
  "VectorOpUnwind_for_each1 0 op result arg s =
     call_op1 op result arg (TILEDARRAY_LOOP_UNWIND - 1) s"
| "VectorOpUnwind_for_each1 (Suc N) op result arg s =
     (case call_op1 op result arg (TILEDARRAY_LOOP_UNWIND - Suc N - 1) s of
        None \<Rightarrow> None
      | Some (result', s') \<Rightarrow> VectorOpUnwind_for_each1 N op result' arg s')"

fun VectorOpUnwind_for_each2 ::
  "nat \<Rightarrow> ('r \<Rightarrow> 'a \<Rightarrow> 'b \<Rightarrow> 's \<Rightarrow> 'r \<times> 's) \<Rightarrow> 'r ptr \<Rightarrow> 'a ptr \<Rightarrow> 'b ptr \<Rightarrow> 's \<Rightarrow>
   ('r ptr \<times> 's) option" where
  "VectorOpUnwind_for_each2 0 op result left right s =
     call_op2 op result left right (TILEDARRAY_LOOP_UNWIND - 1) s"
| "VectorOpUnwind_for_each2 (Suc N) op result left right s =
     (case call_op2 op result left right (TILEDARRAY_LOOP_UNWIND - Suc N - 1) s of
        None \<Rightarrow> None
      | Some (result', s') \<Rightarrow> VectorOpUnwind_for_each2 N op result' left right s')"

text \<open>
  \<^verbatim>\<open>typedef VectorOpUnwind<TILEDARRAY_LOOP_UNWIND - 1> VecOpUnwindN;\<close> and the unwound
  \<^verbatim>\<open>for_each_block(op, result, args...)\<close>, which is \<^verbatim>\<open>VecOpUnwindN::for_each\<close>.
\<close>

definition for_each_block1 ::
  "('r \<Rightarrow> 'a \<Rightarrow> 's \<Rightarrow> 'r \<times> 's) \<Rightarrow> 'r ptr \<Rightarrow> 'a ptr \<Rightarrow> 's \<Rightarrow> ('r ptr \<times> 's) option" where
  "for_each_block1 op result arg s =
     VectorOpUnwind_for_each1 (TILEDARRAY_LOOP_UNWIND - 1) op result arg s"

definition for_each_block2 ::
  "('r \<Rightarrow> 'a \<Rightarrow> 'b \<Rightarrow> 's \<Rightarrow> 'r \<times> 's) \<Rightarrow> 'r ptr \<Rightarrow> 'a ptr \<Rightarrow> 'b ptr \<Rightarrow> 's \<Rightarrow>
   ('r ptr \<times> 's) option" where
  "for_each_block2 op result left right s =
     VectorOpUnwind_for_each2 (TILEDARRAY_LOOP_UNWIND - 1) op result left right s"

text \<open>
  \<^verbatim>\<open>for_each_block(op, n, result, args...)\<close>:
  \<^verbatim>\<open>for(std::size_t i = 0ul; i < n; ++i) op(result[i], args[i]...);\<close>
  The loop from the counter \<open>i\<close> on, and the call, which starts it at 0.
\<close>

function for_each_block_loop2 ::
  "('r \<Rightarrow> 'a \<Rightarrow> 'b \<Rightarrow> 's \<Rightarrow> 'r \<times> 's) \<Rightarrow> size_type \<Rightarrow> size_type \<Rightarrow> 'r ptr \<Rightarrow> 'a ptr \<Rightarrow> 'b ptr \<Rightarrow>
   's \<Rightarrow> ('r ptr \<times> 's) option" where
  "for_each_block_loop2 op n i result left right s =
     (if i < n
      then (case call_op2 op result left right (unat i) s of
              None \<Rightarrow> None
            | Some (result', s') \<Rightarrow> for_each_block_loop2 op n (i + 1) result' left right s')
      else Some (result, s))"
  by pat_completeness auto
termination
proof (relation "measure (\<lambda>(op, n, i, result, left, right, s). unat (n - i))", goal_cases)
  case 1
  show ?case by simp
next
  case (2 op n i result left right s x2 x y)
  then have "n - i \<noteq> 0" by simp
  then have "unat (n - i - 1) < unat (n - i)" by (rule measure_unat)
  then show ?case by (simp add: diff_diff_eq)
qed

definition for_each_block_n2 ::
  "('r \<Rightarrow> 'a \<Rightarrow> 'b \<Rightarrow> 's \<Rightarrow> 'r \<times> 's) \<Rightarrow> size_type \<Rightarrow> 'r ptr \<Rightarrow> 'a ptr \<Rightarrow> 'b ptr \<Rightarrow> 's \<Rightarrow>
   ('r ptr \<times> 's) option" where
  "for_each_block_n2 op n result left right s = for_each_block_loop2 op n 0 result left right s"

text \<open>
  \<^verbatim>\<open>copy_block(result, arg)\<close>:
  \<^verbatim>\<open>for_each_block([] (Result& lhs, const Arg rhs) { lhs = rhs; }, result, arg);\<close>
\<close>

definition copy_block :: "'a ptr \<Rightarrow> 'a ptr \<Rightarrow> 'a ptr option" where
  "copy_block result arg =
     map_option fst (for_each_block1 (\<lambda>lhs rhs s. (rhs, s)) result arg ())"

text \<open>
  \<open>binary_vector_op\<close> with two inputs. The operation \<open>op\<close> of the caller is called through
  \<^verbatim>\<open>auto wrapper_op = [&op] (Result& res, const Left l, const Right r) { res = op(l, r); };\<close>
  The state that \<open>wrapper_op\<close> threads is the log of the calls of \<open>op\<close>: the arguments of
  each call, oldest first.
\<close>

definition wrapper_op ::
  "('l \<Rightarrow> 'r \<Rightarrow> 'res) \<Rightarrow> 'res \<Rightarrow> 'l \<Rightarrow> 'r \<Rightarrow> ('l \<times> 'r) list \<Rightarrow> 'res \<times> ('l \<times> 'r) list" where
  "wrapper_op op res l r log = (op l r, log @ [(l, r)])"

text \<open>
  The body of the blocked loop at the index \<open>i\<close>. The three arrays of
  \<^verbatim>\<open>TILEDARRAY_LOOP_UNWIND\<close> elements that the body declares are not initialised;
  \<open>blocks\<close> is what they hold at their declaration.
\<close>

definition binary_vector_op_block ::
  "('l \<Rightarrow> 'r \<Rightarrow> 'res) \<Rightarrow> 'l list \<Rightarrow> 'r list \<Rightarrow> 'l list \<times> 'r list \<times> 'res list \<Rightarrow> size_type \<Rightarrow>
   'res list \<Rightarrow> ('l \<times> 'r) list \<Rightarrow> ('res list \<times> ('l \<times> 'r) list) option" where
  "binary_vector_op_block op left right blocks i result log =
     (case copy_block (fst blocks, 0) (ptr_plus (left, 0) (unat i)) of
        None \<Rightarrow> None
      | Some left_block \<Rightarrow>
     (case copy_block (fst (snd blocks), 0) (ptr_plus (right, 0) (unat i)) of
        None \<Rightarrow> None
      | Some right_block \<Rightarrow>
     (case for_each_block2 (wrapper_op op) (snd (snd blocks), 0) left_block right_block log of
        None \<Rightarrow> None
      | Some (result_block, log') \<Rightarrow>
     (case copy_block (ptr_plus (result, 0) (unat i)) result_block of
        None \<Rightarrow> None
      | Some result' \<Rightarrow> Some (fst result', log')))))"

text \<open>
  \<^verbatim>\<open>for(; i < nx; i += TILEDARRAY_LOOP_UNWIND) { ... }\<close> from the index \<open>i\<close> on. The value
  is the index at which the loop ends, the result array and the log; a loop that does not
  end has none.
\<close>

partial_function (option) binary_vector_op_loop ::
  "('l \<Rightarrow> 'r \<Rightarrow> 'res) \<Rightarrow> size_type \<Rightarrow> 'l list \<Rightarrow> 'r list \<Rightarrow> 'l list \<times> 'r list \<times> 'res list \<Rightarrow>
   size_type \<Rightarrow> 'res list \<Rightarrow> ('l \<times> 'r) list \<Rightarrow> (size_type \<times> 'res list \<times> ('l \<times> 'r) list) option" where
  "binary_vector_op_loop op nx left right blocks i result log =
     (if i < nx
      then (case binary_vector_op_block op left right blocks i result log of
              None \<Rightarrow> None
            | Some (result', log') \<Rightarrow>
                binary_vector_op_loop op nx left right blocks
                  (i + word_of_nat TILEDARRAY_LOOP_UNWIND) result' log')
      else Some (i, result, log))"

declare binary_vector_op_loop.simps [code]

text \<open>
  \<^verbatim>\<open>constexpr std::size_t index_mask = ~std::size_t(TILEDARRAY_LOOP_UNWIND - 1ul);\<close>
\<close>

definition index_mask :: size_type where
  "index_mask = NOT (word_of_nat TILEDARRAY_LOOP_UNWIND - 1)"

text \<open>
  \<^verbatim>\<open>binary_vector_op(n, left, right, result, op)\<close>: the blocked loop up to
  \<^verbatim>\<open>nx = n & index_mask\<close>, then
  \<^verbatim>\<open>for_each_block(wrapper_op, n - i, result + i, left + i, right + i);\<close>
  The value is the result array and the log of the calls of \<open>op\<close>.
\<close>

definition binary_vector_op ::
  "size_type \<Rightarrow> 'l list \<Rightarrow> 'r list \<Rightarrow> 'res list \<Rightarrow> ('l \<Rightarrow> 'r \<Rightarrow> 'res) \<Rightarrow>
   'l list \<times> 'r list \<times> 'res list \<Rightarrow> ('res list \<times> ('l \<times> 'r) list) option" where
  "binary_vector_op n left right result op blocks =
     (let nx = n AND index_mask in
      case binary_vector_op_loop op nx left right blocks 0 result [] of
        None \<Rightarrow> None
      | Some (i, result', log) \<Rightarrow>
          map_option (\<lambda>(p, log'). (fst p, log'))
            (for_each_block_n2 (wrapper_op op) (n - i)
               (ptr_plus (result', 0) (unat i)) (ptr_plus (left, 0) (unat i))
               (ptr_plus (right, 0) (unat i)) log))"

text \<open>
  For the statements about arrays: \<open>upd_range xs a b f\<close> is the array \<open>xs\<close> with the
  elements at the positions from \<open>a\<close> up to, not including, \<open>b\<close> replaced by \<open>f\<close> of their
  position.
\<close>

definition upd_range :: "'a list \<Rightarrow> nat \<Rightarrow> nat \<Rightarrow> (nat \<Rightarrow> 'a) \<Rightarrow> 'a list" where
  "upd_range xs a b f = map (\<lambda>j. if a \<le> j \<and> j < b then f j else xs ! j) [0..<length xs]"

section \<open>array\_eval.h: \<open>LazyArrayTile\<close>\<close>

text \<open>
  \<^verbatim>\<open>tile_type tile_; std::shared_ptr<op_type> op_; bool consume_;\<close>
  The operation is shared and immutable; the pointer to it is empty in a
  default-constructed tile. An operation takes the input tile and the consume flag.
  The members are named \<open>lazy_tile\<close>, \<open>lazy_op\<close> and \<open>lazy_consume\<close> here (an
  identifier cannot end with an underscore).
\<close>

record ('tile, 'res) LazyArrayTile =
  lazy_tile :: 'tile
  lazy_op :: "('tile \<Rightarrow> bool \<Rightarrow> 'res) option"
  lazy_consume :: bool

text \<open>\<^verbatim>\<open>LazyArrayTile() : tile_(), op_(), consume_(false)\<close>, with the value-initialised
  tile given as \<open>t0\<close>.\<close>

definition LazyArrayTile_default :: "'tile \<Rightarrow> ('tile, 'res) LazyArrayTile" where
  "LazyArrayTile_default t0 = \<lparr>lazy_tile = t0, lazy_op = None, lazy_consume = False\<rparr>"

text \<open>\<^verbatim>\<open>LazyArrayTile(const tile_type& tile, std::shared_ptr<op_type> op, const bool consume)\<close>\<close>

definition LazyArrayTile_make ::
  "'tile \<Rightarrow> ('tile \<Rightarrow> bool \<Rightarrow> 'res) option \<Rightarrow> bool \<Rightarrow> ('tile, 'res) LazyArrayTile" where
  "LazyArrayTile_make tile op consume = \<lparr>lazy_tile = tile, lazy_op = op, lazy_consume = consume\<rparr>"

text \<open>
  \<^verbatim>\<open>operator eval_type() const { return (*op_)(tile_, consume_); }\<close>

  The conversion is a \<^verbatim>\<open>const\<close> member: it leaves the lazy tile as it is and keeps no
  result. The calls made to the operation are recorded in a log (the arguments of each
  call, oldest first), which the conversion takes and returns extended.
\<close>

type_synonym 'tile op_log = "('tile \<times> bool) list"

definition eval_type ::
  "('tile, 'res) LazyArrayTile \<Rightarrow> 'tile op_log \<Rightarrow> error + ('res \<times> 'tile op_log)" where
  "eval_type t log =
     (case lazy_op t of
        None \<Rightarrow> Inl Null_dereference
      | Some f \<Rightarrow>
          Inr (f (lazy_tile t) (lazy_consume t), log @ [(lazy_tile t, lazy_consume t)]))"

text \<open>
  A lifetime of a lazy tile in which it is converted \<open>k\<close> times, one request after the
  other; the results of the conversions are collected, oldest first.
\<close>

fun eval_type_times ::
  "nat \<Rightarrow> ('tile, 'res) LazyArrayTile \<Rightarrow> 'tile op_log \<Rightarrow> error + ('res list \<times> 'tile op_log)" where
  "eval_type_times 0 t log = Inr ([], log)"
| "eval_type_times (Suc k) t log =
     (case eval_type t log of
        Inl e \<Rightarrow> Inl e
      | Inr (r, log') \<Rightarrow>
          (case eval_type_times k t log' of
             Inl e \<Rightarrow> Inl e
           | Inr (rs, log'') \<Rightarrow> Inr (r # rs, log'')))"

text \<open>
  \<^verbatim>\<open>template <typename Archive> void serialize(const Archive& ar) { TA_ASSERT(false); }\<close>
\<close>

definition serialize :: "('tile, 'res) LazyArrayTile \<Rightarrow> 'archive \<Rightarrow> error + unit" where
  "serialize t ar = TA_ASSERT False"

section \<open>Asynchronous handles\<close>

text \<open>
  \<^verbatim>\<open>madness::Future<T>\<close>, as far as the code below uses it: \<open>probe\<close> tells whether the
  handle is resolved, \<open>future_value\<close> is the value it holds once it is. The handle is
  single-assignment; for a handle that is not resolved yet, \<open>future_value\<close> is the value
  it will be assigned, which only a task that runs after the assignment can see.
\<close>

datatype 'a Future = Future (probe: bool) (future_value: 'a)

text \<open>
  Retrieving the value in the calling task (\<^verbatim>\<open>Future::get\<close>, also behind the implicit
  conversion of a \<^verbatim>\<open>Future<T>\<close> to \<^verbatim>\<open>const T&\<close>): it returns at once on a resolved
  handle and makes the caller wait on an unresolved one.
\<close>

datatype 'a retrieved = Got 'a | Blocks

definition Future_get :: "'a Future \<Rightarrow> 'a retrieved" where
  "Future_get f = (if probe f then Got (future_value f) else Blocks)"

section \<open>meta.h: \<open>invoke\<close>\<close>

text \<open>
  An argument of \<open>invoke\<close> by its static type: a plain object, or a \<^verbatim>\<open>madness::Future\<close>
  (\<^verbatim>\<open>madness::is_future<std::decay_t<Args>>\<close>). The overload is selected on the type
  alone; whether a handle is resolved is not looked at.
\<close>

datatype 'a arg = Plain 'a | Handle "'a Future"


text \<open>
  What a call of \<open>invoke\<close> does: \<open>Direct r\<close>, the function was applied in the calling
  task and returned \<open>r\<close>; \<open>Submitted fn f\<close>, the call
  \<^verbatim>\<open>get_default_world().taskq.add(fn, args...)\<close> was made, which queues a task applying \<open>fn\<close>
  to the value of the handle \<open>f\<close> and returns the handle of the task's result.
\<close>

datatype ('a, 'r) invoked = Direct 'r | Submitted "'a \<Rightarrow> 'r" "'a Future"

text \<open>
  \<^verbatim>\<open>invoke(fn, arg)\<close>: the first overload when \<open>arg\<close> is no future, the second when it is.
\<close>

fun invoke1 :: "('a \<Rightarrow> 'r) \<Rightarrow> 'a arg \<Rightarrow> ('a, 'r) invoked" where
  "invoke1 fn (Plain x) = Direct (fn x)"
| "invoke1 fn (Handle f) = Submitted fn f"

text \<open>
  \<^verbatim>\<open>invoke(fn, arg, perm)\<close> with a second argument that is a \<^verbatim>\<open>Permutation\<close>, never a
  future: \<^verbatim>\<open>or_reduce\<close> over the two arguments is the first one's \<open>is_future\<close>.
\<close>

fun invoke2 :: "('a \<Rightarrow> 'p \<Rightarrow> 'r) \<Rightarrow> 'a arg \<Rightarrow> 'p \<Rightarrow> ('a, 'r) invoked" where
  "invoke2 fn (Plain x) p = Direct (fn x p)"
| "invoke2 fn (Handle f) p = Submitted (\<lambda>x. fn x p) f"

section \<open>unary\_wrapper.h: \<open>UnaryWrapper\<close>\<close>

text \<open>
  Modelled from the spec: the class \<^verbatim>\<open>Permutation\<close> (TiledArray/permutation.h is not among
  the sources). A permutation is the list of the images of the dimensions; the
  default-constructed one, which \<^verbatim>\<open>UnaryWrapper(const Op& op) : op_(op), perm_()\<close> stores
  when no permutation is requested, is empty. \<open>dim\<close> is the number of dimensions, and the
  conversion to \<^verbatim>\<open>bool\<close> tells whether a permutation is requested.
\<close>

type_synonym Permutation = "nat list"

definition dim :: "Permutation \<Rightarrow> nat" where
  "dim p = length p"

definition Permutation_bool :: "Permutation \<Rightarrow> bool" where
  "Permutation_bool p = (p \<noteq> [])"

text \<open>
  The interface of the base operation (the comment at the head of \<^verbatim>\<open>UnaryWrapper\<close>):
  \<^verbatim>\<open>result_type operator()(A&& arg) const\<close>,
  \<^verbatim>\<open>result_type operator()(A&& arg, const Permutation& perm) const\<close> and
  \<^verbatim>\<open>result_type consume(argument_type& arg) const\<close>.
\<close>

record ('e, 'r) Op =
  op_apply :: "'e \<Rightarrow> 'r"
  op_apply_perm :: "'e \<Rightarrow> Permutation \<Rightarrow> 'r"
  op_consume :: "'e \<Rightarrow> 'r"

text \<open>
  The base operation that records the call made to it: each of its three members returns
  which member it is and the arguments it was called with. With it, the member that a
  wrapper calls can be read off the result.
\<close>

datatype 'e op_call = Apply 'e | Apply_perm 'e Permutation | Consume 'e

definition recording_op :: "('e, 'e op_call) Op" where
  "recording_op = \<lparr>op_apply = Apply, op_apply_perm = Apply_perm, op_consume = Consume\<rparr>"

text \<open>\<^verbatim>\<open>Op op_; Permutation perm_;\<close>\<close>

record ('e, 'r) UnaryWrapper =
  wrapped_op :: "('e, 'r) Op"
  wrapped_perm :: Permutation

text \<open>
  \<^verbatim>\<open>UnaryWrapper(const Op& op, const Permutation& perm)\<close> and \<^verbatim>\<open>UnaryWrapper(const Op& op)\<close>
\<close>

definition UnaryWrapper_make :: "('e, 'r) Op \<Rightarrow> Permutation \<Rightarrow> ('e, 'r) UnaryWrapper" where
  "UnaryWrapper_make op perm = \<lparr>wrapped_op = op, wrapped_perm = perm\<rparr>"

definition UnaryWrapper_make_noperm :: "('e, 'r) Op \<Rightarrow> ('e, 'r) UnaryWrapper" where
  "UnaryWrapper_make_noperm op = \<lparr>wrapped_op = op, wrapped_perm = []\<rparr>"

text \<open>
  \<^verbatim>\<open>auto operator()(const argument_type& arg) const\<close>: the operand is an evaluated tile.
\<close>

definition call_evaluated :: "('e, 'r) UnaryWrapper \<Rightarrow> 'e \<Rightarrow> 'r" where
  "call_evaluated w arg =
     (if Permutation_bool (wrapped_perm w)
      then op_apply_perm (wrapped_op w) arg (wrapped_perm w)
      else op_apply (wrapped_op w) arg)"


text \<open>
  \<^verbatim>\<open>operator()\<close> for \<^verbatim>\<open>is_array_tile_t<A>::value\<close>: a lazy tile that comes from a stored
  array. \<^verbatim>\<open>arg.is_consumable()\<close> is the parameter \<open>is_consumable\<close>; \<open>op_consume\<close> is the
  lambda \<^verbatim>\<open>[this](eval_t<A>& arg) { return op_.consume(arg); }\<close>. The value is what the
  selected \<open>invoke\<close> did; the conversion to the declared \<^verbatim>\<open>result_type\<close> on return is
  \<open>call_array_tile_returned\<close> below.
\<close>

definition call_array_tile ::
  "('e, 'r) UnaryWrapper \<Rightarrow> ('l \<Rightarrow> 'e arg) \<Rightarrow> ('l \<Rightarrow> bool) \<Rightarrow> 'l \<Rightarrow> ('e, 'r) invoked" where
  "call_array_tile w cast is_consumable arg =
     (let cast_arg = cast arg in
      if Permutation_bool (wrapped_perm w)
      then invoke2 (op_apply_perm (wrapped_op w)) cast_arg (wrapped_perm w)
      else if is_consumable arg
           then invoke1 (op_consume (wrapped_op w)) cast_arg
           else invoke1 (op_apply (wrapped_op w)) cast_arg)"


text \<open>\<^verbatim>\<open>consume\<close> for \<^verbatim>\<open>! is_lazy_tile_t<A>::value\<close>\<close>

definition consume_evaluated :: "('e, 'r) UnaryWrapper \<Rightarrow> 'e \<Rightarrow> 'r" where
  "consume_evaluated w arg =
     (if Permutation_bool (wrapped_perm w)
      then op_apply_perm (wrapped_op w) arg (wrapped_perm w)
      else op_consume (wrapped_op w) arg)"








section \<open>array\_eval.h: \<open>ArrayEvalImpl\<close>\<close>

text \<open>
  The evaluator with what it reaches through its members and base classes, none of which
  is among the sources; each is a field here:
  \<^item> \<open>array_is_local\<close>, \<open>array_find\<close>, \<open>array_range_ord\<close>: \<^verbatim>\<open>array_.is_local(i)\<close>,
    \<^verbatim>\<open>array_.find(i)\<close> and \<^verbatim>\<open>array_.range().ord(index)\<close> of the source array;
  \<^item> \<open>shared_op\<close>: the operation \<^verbatim>\<open>op_\<close>, allocated by the constructor and shared by all
    the tiles;
  \<^item> \<open>perm\<close>: \<^verbatim>\<open>DistEvalImpl_::perm()\<close>;
  \<^item> \<open>range_idx\<close>, \<open>pmap_local\<close>, \<open>is_zero\<close>: \<^verbatim>\<open>TensorImpl_::range().idx(i)\<close>, the ordinals
    that \<^verbatim>\<open>TensorImpl_::pmap()->begin()\<close> to \<^verbatim>\<open>end()\<close> iterate over, and
    \<^verbatim>\<open>TensorImpl_::is_zero(i)\<close>;
  \<^item> \<open>perm_neg\<close>, \<open>perm_apply\<close>: the operators \<^verbatim>\<open>-perm\<close> (inverse) and \<^verbatim>\<open>perm ^ index\<close>
    (image of a multi-index) of \<^verbatim>\<open>Permutation\<close>.
\<close>

record ('tile, 'res) ArrayEvalImpl =
  array_is_local :: "size_type \<Rightarrow> bool"
  array_find :: "size_type \<Rightarrow> 'tile Future"
  array_range_ord :: "size_type list \<Rightarrow> size_type"
  shared_op :: "'tile \<Rightarrow> bool \<Rightarrow> 'res"
  perm :: Permutation
  range_idx :: "size_type \<Rightarrow> size_type list"
  pmap_local :: "size_type list"
  is_zero :: "size_type \<Rightarrow> bool"
  perm_neg :: "Permutation \<Rightarrow> Permutation"
  perm_apply :: "Permutation \<Rightarrow> size_type list \<Rightarrow> size_type list"

text \<open>
  What the evaluator does to its surroundings, in the order in which it does it:
  \<^item> \<open>Set_tile i t\<close>: the call \<^verbatim>\<open>DistEvalImpl_::set_tile(i, t)\<close>, which stores the lazy
    tile \<open>t\<close> at the ordinal \<open>i\<close> of the result;
  \<^item> \<open>Task_add i tile consume\<close>: the call
    \<^verbatim>\<open>taskq.add(self, & ArrayEvalImpl_::set_tile, i, tile, consume, hipri())\<close>, which
    registers a task that runs \<open>set_tile\<close> once the handle \<open>tile\<close> is resolved;
  \<^item> \<open>Waits_for tile\<close>: the calling task waits for the unresolved handle \<open>tile\<close>.
\<close>

datatype ('tile, 'res) effect =
    Set_tile size_type "('tile, 'res) LazyArrayTile"
  | Task_add size_type "'tile Future" bool
  | Waits_for "'tile Future"

text \<open>
  \<^verbatim>\<open>void set_tile(const size_type i, const typename array_type::value_type& tile,
     const bool consume) { DistEvalImpl_::set_tile(i, value_type(tile, op_, consume)); }\<close>
\<close>

definition set_tile ::
  "('tile, 'res) ArrayEvalImpl \<Rightarrow> size_type \<Rightarrow> 'tile \<Rightarrow> bool \<Rightarrow> ('tile, 'res) effect" where
  "set_tile impl i tile consume =
     Set_tile i (LazyArrayTile_make tile (Some (shared_op impl)) consume)"

text \<open>
  The task that \<open>Task_add\<close> registered, when the task queue runs it: the handle is
  resolved by then and the task body is \<open>set_tile\<close> on its value. The other effects
  register nothing.
\<close>

fun run_task ::
  "('tile, 'res) ArrayEvalImpl \<Rightarrow> ('tile, 'res) effect \<Rightarrow> ('tile, 'res) effect option" where
  "run_task impl (Task_add i tile consume) = Some (set_tile impl i (future_value tile) consume)"
| "run_task impl (Set_tile i t) = None"
| "run_task impl (Waits_for tile) = None"

text \<open>
  The template parameter \<^verbatim>\<open>Perm\<close> of \<open>eval_kernel\<close> and the two overloads of
  \<open>get_array_index\<close>:
  \<^verbatim>\<open>return array_.range().ord(inv_perm ^ TensorImpl_::range().idx(i));\<close> for a
  \<^verbatim>\<open>Permutation\<close> and \<^verbatim>\<open>return i;\<close> for \<^verbatim>\<open>NoPermutation\<close>.
\<close>

datatype Perm = With_permutation Permutation | NoPermutation

fun get_array_index :: "('tile, 'res) ArrayEvalImpl \<Rightarrow> Perm \<Rightarrow> size_type \<Rightarrow> size_type" where
  "get_array_index impl (With_permutation inv_perm) i =
     array_range_ord impl (perm_apply impl inv_perm (range_idx impl i))"
| "get_array_index impl NoPermutation i = i"

text \<open>
  One iteration of the loop of \<open>eval_kernel\<close> on the target ordinal \<open>i\<close>, for an ordinal
  that is not zero: the effect of lines 199 to 215. In the branch \<^verbatim>\<open>tile.probe()\<close> the
  handle is converted to the tile it holds to build the lazy tile.
\<close>

definition eval_kernel_body ::
  "('tile, 'res) ArrayEvalImpl \<Rightarrow> Perm \<Rightarrow> size_type \<Rightarrow> ('tile, 'res) effect" where
  "eval_kernel_body impl inv_perm i =
     (let array_index = get_array_index impl inv_perm i;
          consumable_tile = \<not> array_is_local impl array_index;
          tile = array_find impl array_index
      in if probe tile
         then (case Future_get tile of
                 Got v \<Rightarrow> Set_tile i (LazyArrayTile_make v (Some (shared_op impl)) consumable_tile)
               | Blocks \<Rightarrow> Waits_for tile)
         else Task_add i tile consumable_tile)"

text \<open>
  The loop \<^verbatim>\<open>for(; it != end; ++it)\<close> over the local ordinals that are left, with the
  counter \<open>task_count\<close> and the effects so far.
\<close>

fun eval_kernel_loop ::
  "('tile, 'res) ArrayEvalImpl \<Rightarrow> Perm \<Rightarrow> size_type list \<Rightarrow>
   size_type \<times> ('tile, 'res) effect list \<Rightarrow> size_type \<times> ('tile, 'res) effect list" where
  "eval_kernel_loop impl inv_perm [] (task_count, effects) = (task_count, effects)"
| "eval_kernel_loop impl inv_perm (i # its) (task_count, effects) =
     (if \<not> is_zero impl i
      then eval_kernel_loop impl inv_perm its
             (task_count + 1, effects @ [eval_kernel_body impl inv_perm i])
      else eval_kernel_loop impl inv_perm its (task_count, effects))"

definition eval_kernel ::
  "('tile, 'res) ArrayEvalImpl \<Rightarrow> Perm \<Rightarrow> size_type \<times> ('tile, 'res) effect list" where
  "eval_kernel impl inv_perm = eval_kernel_loop impl inv_perm (pmap_local impl) (0, [])"

text \<open>
  \<open>eval_tiles\<close>: \<^verbatim>\<open>TA_ASSERT(this == pimpl.get())\<close>, with the outcome of the comparison
  given as \<open>pimpl_is_this\<close>, then
  \<^verbatim>\<open>perm().dim() > 1 ? eval_kernel(self, -perm()) : eval_kernel(self, NoPermutation())\<close>.
\<close>

definition eval_tiles ::
  "('tile, 'res) ArrayEvalImpl \<Rightarrow> bool \<Rightarrow> error + (size_type \<times> ('tile, 'res) effect list)" where
  "eval_tiles impl pimpl_is_this =
     (case TA_ASSERT pimpl_is_this of
        Inl e \<Rightarrow> Inl e
      | Inr _ \<Rightarrow>
          Inr (if dim (perm impl) > 1
               then eval_kernel impl (With_permutation (perm_neg impl (perm impl)))
               else eval_kernel impl NoPermutation))"

text \<open>The ordinal an effect is about.\<close>

fun effect_ordinal :: "('tile, 'res) effect \<Rightarrow> size_type option" where
  "effect_ordinal (Set_tile i t) = Some i"
| "effect_ordinal (Task_add i tile consume) = Some i"
| "effect_ordinal (Waits_for tile) = None"

text \<open>The consumability flag an effect carries.\<close>

fun effect_consumable :: "('tile, 'res) effect \<Rightarrow> bool option" where
  "effect_consumable (Set_tile i t) = Some (lazy_consume t)"
| "effect_consumable (Task_add i tile consume) = Some consume"
| "effect_consumable (Waits_for tile) = None"

text \<open>
  The lazy tile that an effect puts into the result, with its ordinal: the one that
  \<open>Set_tile\<close> stores, and for \<open>Task_add\<close> the one that the registered task stores when it
  runs.
\<close>

fun effect_tile ::
  "('tile, 'res) ArrayEvalImpl \<Rightarrow> ('tile, 'res) effect \<Rightarrow>
   (size_type \<times> ('tile, 'res) LazyArrayTile) option" where
  "effect_tile impl (Set_tile i t) = Some (i, t)"
| "effect_tile impl (Task_add i tile consume) =
     (case run_task impl (Task_add i tile consume) of
        Some (Set_tile j t) \<Rightarrow> Some (j, t)
      | _ \<Rightarrow> None)"
| "effect_tile impl (Waits_for tile) = None"

section \<open>reduce\_task.h: \<open>ReduceTask\<close> and \<open>ReducePairTask\<close>\<close>

text \<open>
  Modelled from the spec: the fold of a reduce task (TiledArray/reduce\_task.h is not
  among the sources). Section 4.4 of the specification: \<open>submit\<close> builds a binary-tree
  fold, of logarithmic depth, with the combine function and the identity element of the
  caller. The leaves are the operands in the order in which they arrived; the list
  of leaves is halved until one leaf is left, which is combined with the identity.
\<close>

function tree_fold :: "('a \<Rightarrow> 'a \<Rightarrow> 'a) \<Rightarrow> 'a \<Rightarrow> 'a list \<Rightarrow> 'a" where
  "tree_fold f e [] = e"
| "tree_fold f e [x] = f e x"
| "tree_fold f e (x # y # zs) =
     f (tree_fold f e (take (length (x # y # zs) div 2) (x # y # zs)))
       (tree_fold f e (drop (length (x # y # zs) div 2) (x # y # zs)))"
  by pat_completeness auto
termination
  by (relation "measure (\<lambda>(f, e, xs). length xs)") auto

text \<open>
  Modelled from the spec: the class \<open>ReduceTask\<close> (TiledArray/reduce\_task.h is not among
  the sources). Sections 3 and 4.4 of the specification: \<open>add\<close> takes an operand that is
  a value or an asynchronous handle to one, any number of times, before \<open>submit\<close>;
  \<open>submit\<close> closes the list of operands and returns the result handle, and \<open>add\<close> after it
  is an error; the result handle is ready once every operand has arrived, and not before.

  \<open>operands\<close> holds one entry for each \<open>add\<close>, in the order of the calls: the value of the
  operand, or \<open>None\<close> for a handle that is not resolved yet. \<open>arrived\<close> holds the values of
  the operands in the order in which they arrived.
\<close>

record 'a ReduceTask =
  operands :: "'a option list"
  arrived :: "'a list"
  submitted :: bool

definition ReduceTask_new :: "'a ReduceTask" where
  "ReduceTask_new = \<lparr>operands = [], arrived = [], submitted = False\<rparr>"

datatype reduce_error = Add_after_submit | Submit_twice | No_such_handle | Handle_already_set

text \<open>\<open>rt.add(value)\<close>\<close>

definition add_value :: "'a \<Rightarrow> 'a ReduceTask \<Rightarrow> reduce_error + 'a ReduceTask" where
  "add_value v rt =
     (if submitted rt then Inl Add_after_submit
      else Inr (rt\<lparr>operands := operands rt @ [Some v], arrived := arrived rt @ [v]\<rparr>))"

text \<open>\<open>rt.add(f)\<close> for a handle \<open>f\<close> that is not resolved; the handle is known by the position
  of its operand.\<close>

definition add_future :: "'a ReduceTask \<Rightarrow> reduce_error + 'a ReduceTask" where
  "add_future rt =
     (if submitted rt then Inl Add_after_submit
      else Inr (rt\<lparr>operands := operands rt @ [None]\<rparr>))"

text \<open>\<open>f.set(v)\<close> for the handle of the operand at position \<open>k\<close>: the operand arrives. A
  handle is assigned once.\<close>

definition set_future :: "nat \<Rightarrow> 'a \<Rightarrow> 'a ReduceTask \<Rightarrow> reduce_error + 'a ReduceTask" where
  "set_future k v rt =
     (if length (operands rt) \<le> k then Inl No_such_handle
      else if operands rt ! k \<noteq> None then Inl Handle_already_set
      else Inr (rt\<lparr>operands := (operands rt)[k := Some v], arrived := arrived rt @ [v]\<rparr>))"

text \<open>\<open>rt.submit()\<close>\<close>

definition submit :: "'a ReduceTask \<Rightarrow> reduce_error + 'a ReduceTask" where
  "submit rt = (if submitted rt then Inl Submit_twice else Inr (rt\<lparr>submitted := True\<rparr>))"

text \<open>
  \<open>result.probe()\<close> on the handle that \<open>submit\<close> returned: ready once every operand has
  arrived. Before \<open>submit\<close> there is no result handle and nothing is ready.
\<close>

definition result_probe :: "'a ReduceTask \<Rightarrow> bool" where
  "result_probe rt = (submitted rt \<and> list_all (\<lambda>x. x \<noteq> None) (operands rt))"

text \<open>
  \<open>result.get()\<close>: the fold of the operands, when the result is ready; a caller that asks
  before has to wait (\<open>None\<close>).
\<close>

definition result_get :: "('a \<Rightarrow> 'a \<Rightarrow> 'a) \<Rightarrow> 'a \<Rightarrow> 'a ReduceTask \<Rightarrow> 'a option" where
  "result_get f e rt = (if result_probe rt then Some (tree_fold f e (arrived rt)) else None)"

text \<open>
  What a client does with a reduce task, one call after the other; a call that is an
  error ends the run.
\<close>

datatype 'a reduce_call = Add_value 'a | Add_future | Set_future nat 'a | Submit

fun reduce_step :: "'a reduce_call \<Rightarrow> 'a ReduceTask \<Rightarrow> reduce_error + 'a ReduceTask" where
  "reduce_step (Add_value v) rt = add_value v rt"
| "reduce_step Add_future rt = add_future rt"
| "reduce_step (Set_future k v) rt = set_future k v rt"
| "reduce_step Submit rt = submit rt"

fun reduce_run :: "'a reduce_call list \<Rightarrow> 'a ReduceTask \<Rightarrow> reduce_error + 'a ReduceTask" where
  "reduce_run [] rt = Inr rt"
| "reduce_run (c # cs) rt =
     (case reduce_step c rt of Inl e \<Rightarrow> Inl e | Inr rt' \<Rightarrow> reduce_run cs rt')"

text \<open>The values of the operands that have arrived, in the order of the calls of \<open>add\<close>.\<close>

definition resolved :: "'a option list \<Rightarrow> 'a list" where
  "resolved xs = concat (map (\<lambda>x. case x of None \<Rightarrow> [] | Some v \<Rightarrow> [v]) xs)"

text \<open>
  The operation of a pair reduction, by its four call operators: the identity
  \<^verbatim>\<open>result_type operator()() const\<close>, the addition of a partial result to a result
  \<^verbatim>\<open>void operator()(result_type& result, const result_type& arg) const\<close>, the addition of a
  pair to a result and the reduction of two pairs.
\<close>

record ('a, 'b, 'r) pair_op =
  op_identity :: 'r
  op_result :: "'r \<Rightarrow> 'r \<Rightarrow> 'r"
  op_pair :: "'r \<Rightarrow> 'a \<Rightarrow> 'b \<Rightarrow> 'r"
  op_two_pairs :: "'a \<Rightarrow> 'b \<Rightarrow> 'a \<Rightarrow> 'b \<Rightarrow> 'r"

text \<open>
  tests/reduce\_task.cpp, \<^verbatim>\<open>struct ReduceOp\<close>:
  \<^verbatim>\<open>return result_type();\<close>, \<^verbatim>\<open>result += arg;\<close>, \<^verbatim>\<open>result += first * second;\<close> and
  \<^verbatim>\<open>return first1 * second1 + first2 * second2;\<close> on \<^verbatim>\<open>int\<close>. The sums of the products
  of the test data stay below \<open>2^31\<close> in every order, so the integers are unbounded here.
\<close>

definition ReduceOp :: "(int, int, int) pair_op" where
  "ReduceOp =
     \<lparr>op_identity = 0,
      op_result = (\<lambda>result arg. result + arg),
      op_pair = (\<lambda>result first second. result + first * second),
      op_two_pairs = (\<lambda>first1 second1 first2 second2. first1 * second1 + first2 * second2)\<rparr>"

text \<open>
  Modelled from the spec: the fold of a pair reduce task (TiledArray/reduce\_task.h is not
  among the sources). Section 4.4 and 4.5 of the specification: a binary-tree fold of
  logarithmic depth over the pairs, in the order in which they arrived, that accumulates
  the product of each pair. A single pair is added to the identity, two pairs are reduced
  together, and the results of the two halves of a longer list are added.
\<close>

function tree_fold_pairs :: "('a, 'b, 'r) pair_op \<Rightarrow> ('a \<times> 'b) list \<Rightarrow> 'r" where
  "tree_fold_pairs op [] = op_identity op"
| "tree_fold_pairs op [(a, b)] = op_pair op (op_identity op) a b"
| "tree_fold_pairs op [(a, b), (c, d)] = op_two_pairs op a b c d"
| "tree_fold_pairs op (p # q # r # ps) =
     op_result op
       (tree_fold_pairs op (take (length (p # q # r # ps) div 2) (p # q # r # ps)))
       (tree_fold_pairs op (drop (length (p # q # r # ps) div 2) (p # q # r # ps)))"
  by pat_completeness auto
termination
  by (relation "measure (\<lambda>(op, ps). length ps)") auto

text \<open>
  Modelled from the spec: the class \<open>ReducePairTask\<close> (TiledArray/reduce\_task.h is not
  among the sources). Section 4.4 of the specification: \<open>add(first, second)\<close> takes a pair
  of operands, each a value or an asynchronous handle to one, before \<open>submit\<close>; the result
  handle is ready once every pair has arrived. A pair has arrived when both of its sides
  have.

  \<open>pair_operands\<close> holds one entry for each \<open>add\<close>, each side the value or \<open>None\<close> for a
  handle that is not resolved yet; \<open>pairs_arrived\<close> holds the pairs in the order in which
  they arrived.
\<close>

record ('a, 'b) ReducePairTask =
  pair_operands :: "('a option \<times> 'b option) list"
  pairs_arrived :: "('a \<times> 'b) list"
  pairs_submitted :: bool

definition ReducePairTask_new :: "('a, 'b) ReducePairTask" where
  "ReducePairTask_new = \<lparr>pair_operands = [], pairs_arrived = [], pairs_submitted = False\<rparr>"

text \<open>The pair that an entry holds, when both of its sides are there.\<close>

fun complete_pair :: "'a option \<times> 'b option \<Rightarrow> ('a \<times> 'b) list" where
  "complete_pair (Some a, Some b) = [(a, b)]"
| "complete_pair (None, y) = []"
| "complete_pair (x, None) = []"

text \<open>\<open>rt.add(first, second)\<close>; a side that is a handle not yet resolved is \<open>None\<close>, and is
  known by the position of its pair.\<close>

definition add_pair ::
  "'a option \<Rightarrow> 'b option \<Rightarrow> ('a, 'b) ReducePairTask \<Rightarrow> reduce_error + ('a, 'b) ReducePairTask" where
  "add_pair x y rt =
     (if pairs_submitted rt then Inl Add_after_submit
      else Inr (rt\<lparr>pair_operands := pair_operands rt @ [(x, y)],
                   pairs_arrived := pairs_arrived rt @ complete_pair (x, y)\<rparr>))"

text \<open>\<open>f1.set(v)\<close> for the handle of the first side of the pair at position \<open>k\<close>.\<close>

definition set_first ::
  "nat \<Rightarrow> 'a \<Rightarrow> ('a, 'b) ReducePairTask \<Rightarrow> reduce_error + ('a, 'b) ReducePairTask" where
  "set_first k v rt =
     (if length (pair_operands rt) \<le> k then Inl No_such_handle
      else if fst (pair_operands rt ! k) \<noteq> None then Inl Handle_already_set
      else Inr (rt\<lparr>pair_operands := (pair_operands rt)[k := (Some v, snd (pair_operands rt ! k))],
                   pairs_arrived :=
                     pairs_arrived rt @ complete_pair (Some v, snd (pair_operands rt ! k))\<rparr>))"

text \<open>\<open>f2.set(v)\<close> for the handle of the second side of the pair at position \<open>k\<close>.\<close>

definition set_second ::
  "nat \<Rightarrow> 'b \<Rightarrow> ('a, 'b) ReducePairTask \<Rightarrow> reduce_error + ('a, 'b) ReducePairTask" where
  "set_second k v rt =
     (if length (pair_operands rt) \<le> k then Inl No_such_handle
      else if snd (pair_operands rt ! k) \<noteq> None then Inl Handle_already_set
      else Inr (rt\<lparr>pair_operands := (pair_operands rt)[k := (fst (pair_operands rt ! k), Some v)],
                   pairs_arrived :=
                     pairs_arrived rt @ complete_pair (fst (pair_operands rt ! k), Some v)\<rparr>))"

text \<open>\<open>rt.submit()\<close>\<close>

definition submit_pairs :: "('a, 'b) ReducePairTask \<Rightarrow> reduce_error + ('a, 'b) ReducePairTask" where
  "submit_pairs rt =
     (if pairs_submitted rt then Inl Submit_twice else Inr (rt\<lparr>pairs_submitted := True\<rparr>))"

text \<open>\<open>result.probe()\<close> and \<open>result.get()\<close> on the handle that \<open>submit\<close> returned.\<close>

definition pairs_result_probe :: "('a, 'b) ReducePairTask \<Rightarrow> bool" where
  "pairs_result_probe rt =
     (pairs_submitted rt \<and> list_all (\<lambda>p. fst p \<noteq> None \<and> snd p \<noteq> None) (pair_operands rt))"

definition pairs_result_get :: "('a, 'b, 'r) pair_op \<Rightarrow> ('a, 'b) ReducePairTask \<Rightarrow> 'r option" where
  "pairs_result_get op rt =
     (if pairs_result_probe rt then Some (tree_fold_pairs op (pairs_arrived rt)) else None)"

datatype ('a, 'b) pair_call =
  Add_pair "'a option" "'b option" | Set_first nat 'a | Set_second nat 'b | Submit_pairs

fun pair_step ::
  "('a, 'b) pair_call \<Rightarrow> ('a, 'b) ReducePairTask \<Rightarrow> reduce_error + ('a, 'b) ReducePairTask" where
  "pair_step (Add_pair x y) rt = add_pair x y rt"
| "pair_step (Set_first k v) rt = set_first k v rt"
| "pair_step (Set_second k v) rt = set_second k v rt"
| "pair_step Submit_pairs rt = submit_pairs rt"

fun pair_run ::
  "('a, 'b) pair_call list \<Rightarrow> ('a, 'b) ReducePairTask \<Rightarrow> reduce_error + ('a, 'b) ReducePairTask" where
  "pair_run [] rt = Inr rt"
| "pair_run (c # cs) rt =
     (case pair_step c rt of Inl e \<Rightarrow> Inl e | Inr rt' \<Rightarrow> pair_run cs rt')"

section \<open>Example instances\<close>

text \<open>
  An evaluator over a source array of two by two tiles, transposed. The tiles with the
  ordinals 0 and 1 are local to the source array, the handle to the tile 3 is not
  resolved when it is asked for, and the tile 0 of the result is structurally zero. A
  source tile is a number and the operation pairs it with the consume flag.
  \<open>example_inverse\<close> and \<open>example_apply\<close> are the inverse of a permutation and the image of
  a multi-index under one.
\<close>

definition example_inverse :: "Permutation \<Rightarrow> Permutation" where
  "example_inverse p = map (\<lambda>j. length (takeWhile (\<lambda>x. x \<noteq> j) p)) [0..<length p]"

definition example_apply :: "Permutation \<Rightarrow> size_type list \<Rightarrow> size_type list" where
  "example_apply p v = map (\<lambda>j. v ! (example_inverse p ! j)) [0..<length p]"

definition example_impl :: "(nat, nat \<times> bool) ArrayEvalImpl" where
  "example_impl =
     \<lparr>array_is_local = (\<lambda>k. k < 2),
      array_find = (\<lambda>k. Future (k < 3) (10 + unat k)),
      array_range_ord = (\<lambda>v. 2 * (v ! 0) + v ! 1),
      shared_op = Pair,
      perm = [1, 0],
      range_idx = (\<lambda>i. [i div 2, i mod 2]),
      pmap_local = [0, 1, 2, 3],
      is_zero = (\<lambda>i. i = 0),
      perm_neg = example_inverse,
      perm_apply = example_apply\<rparr>"

text \<open>
  A run of a reduce task in the manner of the tests: the operands 1 to 99 are added as
  values, the operand 0 as a handle; the task is submitted, and the handle is set last.
\<close>

definition example_values :: "int list" where
  "example_values = map int [1..<100]"

definition example_calls :: "int reduce_call list" where
  "example_calls = map Add_value example_values @ [Add_future, Submit]"

definition example_last_call :: "int reduce_call list" where
  "example_last_call = [Set_future 99 0]"

definition example_before_last :: "int ReduceTask" where
  "example_before_last =
     \<lparr>operands = map Some example_values @ [None],
      arrived = example_values, submitted = True\<rparr>"

definition example_final :: "int ReduceTask" where
  "example_final =
     \<lparr>operands = map Some (example_values @ [0]),
      arrived = example_values @ [0], submitted = True\<rparr>"

text \<open>
  The same for a pair reduce task: the pairs \<open>(i, i)\<close> for 1 to 99 are added as values and
  the pair \<open>(0, 0)\<close> as two handles, which are set after \<open>submit\<close>, the second side first.
\<close>

definition example_pairs :: "(int \<times> int) list" where
  "example_pairs = map (\<lambda>i. (int i, int i)) [1..<100]"

definition example_pair_calls :: "(int, int) pair_call list" where
  "example_pair_calls =
     map (\<lambda>(a, b). Add_pair (Some a) (Some b)) example_pairs @
     [Add_pair None None, Submit_pairs, Set_second 99 0, Set_first 99 0]"

definition example_pairs_final :: "(int, int) ReducePairTask" where
  "example_pairs_final =
     \<lparr>pair_operands = map (\<lambda>(a, b). (Some a, Some b)) (example_pairs @ [(0, 0)]),
      pairs_arrived = example_pairs @ [(0, 0)], pairs_submitted = True\<rparr>"

chapter \<open>Properties\<close>

section \<open>vector\_op.h\<close>

lemma LOOP_UNWIND_8: "TILEDARRAY_LOOP_UNWIND = 8"
  by (simp add: TILEDARRAY_LOOP_UNWIND_def TILEDARRAY_CACHELINE_SIZE_def sizeof_double_def)

lemma length_upd_range [simp]: "length (upd_range xs a b f) = length xs"
  by (simp add: upd_range_def)

lemma nth_upd_range:
  "j < length xs \<Longrightarrow> upd_range xs a b f ! j = (if a \<le> j \<and> j < b then f j else xs ! j)"
  by (simp add: upd_range_def)

lemma upd_range_empty: "b \<le> a \<Longrightarrow> upd_range xs a b f = xs"
  by (rule nth_equalityI) (auto simp: nth_upd_range)

lemma upd_range_single: "b = Suc k \<Longrightarrow> upd_range xs k b f = xs[k := f k]"
proof (rule nth_equalityI)
  fix i
  assume "b = Suc k" and "i < length (upd_range xs k b f)"
  then show "upd_range xs k b f ! i = xs[k := f k] ! i"
    by (cases "i = k") (auto simp: nth_upd_range)
qed simp

lemma upd_range_step:
  "k < b \<Longrightarrow> k' = Suc k \<Longrightarrow> upd_range (xs[k := f k]) k' b f = upd_range xs k b f"
proof (rule nth_equalityI)
  fix i
  assume "k < b" and "k' = Suc k" and "i < length (upd_range (xs[k := f k]) k' b f)"
  then show "upd_range (xs[k := f k]) k' b f ! i = upd_range xs k b f ! i"
    by (cases "i = k") (auto simp: nth_upd_range)
qed simp

lemma upd_range_append:
  "a \<le> b \<Longrightarrow> b \<le> c \<Longrightarrow> upd_range (upd_range xs a b f) b c f = upd_range xs a c f"
  by (rule nth_equalityI) (auto simp: nth_upd_range)

lemma upd_range_cong:
  "(\<And>j. a \<le> j \<Longrightarrow> j < b \<Longrightarrow> j < length xs \<Longrightarrow> f j = g j) \<Longrightarrow>
   upd_range xs a b f = upd_range xs a b g"
  by (rule nth_equalityI) (auto simp: nth_upd_range)

lemma upd_range_all:
  "length xs = n \<Longrightarrow> upd_range xs 0 n f = map f [0..<n]"
  by (rule nth_equalityI) (auto simp: nth_upd_range)

lemma call_op1_copy:
  "rb + k < length res \<Longrightarrow> ab + k < length arg \<Longrightarrow>
   call_op1 (\<lambda>lhs rhs s. (rhs, s)) (res, rb) (arg, ab) k s =
     Some ((res[rb + k := arg ! (ab + k)], rb), s)"
  by (simp add: call_op1_def element_def assign_def)

lemma call_op2_wrapper:
  "rb + k < length res \<Longrightarrow> lb + k < length l \<Longrightarrow> rrb + k < length r \<Longrightarrow>
   call_op2 (wrapper_op op) (res, rb) (l, lb) (r, rrb) k log =
     Some ((res[rb + k := op (l ! (lb + k)) (r ! (rrb + k))], rb),
           log @ [(l ! (lb + k), r ! (rrb + k))])"
  by (simp add: call_op2_def element_def assign_def wrapper_op_def)

lemma for_each1_copy:
  assumes "N < 8" and "rb + 8 \<le> length res" and "ab + 8 \<le> length arg"
  shows "VectorOpUnwind_for_each1 N (\<lambda>lhs rhs s. (rhs, s)) (res, rb) (arg, ab) s =
     Some ((upd_range res (rb + (7 - N)) (rb + 8) (\<lambda>j. arg ! (ab + (j - rb))), rb), s)"
  using assms
proof (induction N arbitrary: res)
  case 0
  have "upd_range res (rb + 7) (rb + 8) (\<lambda>j. arg ! (ab + (j - rb))) =
      res[rb + 7 := arg ! (ab + 7)]"
    by (subst upd_range_single) simp_all
  with 0 show ?case
    by (simp add: LOOP_UNWIND_8 call_op1_copy)
next
  case (Suc N)
  let ?f = "\<lambda>j. arg ! (ab + (j - rb))"
  have off: "TILEDARRAY_LOOP_UNWIND - Suc N - 1 = 6 - N"
    by (simp add: LOOP_UNWIND_8)
  have call: "call_op1 (\<lambda>lhs rhs s. (rhs, s)) (res, rb) (arg, ab) (6 - N) s =
      Some ((res[rb + (6 - N) := ?f (rb + (6 - N))], rb), s)"
    using Suc.prems by (simp add: call_op1_copy)
  have rec: "VectorOpUnwind_for_each1 N (\<lambda>lhs rhs s. (rhs, s))
        (res[rb + (6 - N) := ?f (rb + (6 - N))], rb) (arg, ab) s =
      Some ((upd_range (res[rb + (6 - N) := ?f (rb + (6 - N))]) (rb + (7 - N)) (rb + 8) ?f, rb), s)"
    using Suc.prems by (intro Suc.IH) simp_all
  have "upd_range (res[rb + (6 - N) := ?f (rb + (6 - N))]) (rb + (7 - N)) (rb + 8) ?f =
      upd_range res (rb + (6 - N)) (rb + 8) ?f"
    using Suc.prems by (intro upd_range_step) simp_all
  moreover have "7 - Suc N = 6 - N"
    by simp
  ultimately show ?case
    by (simp only: VectorOpUnwind_for_each1.simps off call rec option.case prod.case)
qed

lemma for_each2_wrapper:
  assumes "N < 8" and "rb + 8 \<le> length res" and "lb + 8 \<le> length l" and "rrb + 8 \<le> length r"
  shows "VectorOpUnwind_for_each2 N (wrapper_op op) (res, rb) (l, lb) (r, rrb) log =
     Some ((upd_range res (rb + (7 - N)) (rb + 8)
              (\<lambda>j. op (l ! (lb + (j - rb))) (r ! (rrb + (j - rb)))), rb),
           log @ map (\<lambda>k. (l ! (lb + k), r ! (rrb + k))) [7 - N..<8])"
  using assms
proof (induction N arbitrary: res log)
  case 0
  have "[7..<8] = [7::nat]"
    by (simp add: upt_rec)
  moreover have "upd_range res (rb + 7) (rb + 8)
        (\<lambda>j. op (l ! (lb + (j - rb))) (r ! (rrb + (j - rb)))) =
      res[rb + 7 := op (l ! (lb + 7)) (r ! (rrb + 7))]"
    by (subst upd_range_single) simp_all
  ultimately show ?case
    using 0 by (simp add: LOOP_UNWIND_8 call_op2_wrapper)
next
  case (Suc N)
  let ?f = "\<lambda>j. op (l ! (lb + (j - rb))) (r ! (rrb + (j - rb)))"
  let ?g = "\<lambda>k. (l ! (lb + k), r ! (rrb + k))"
  have off: "TILEDARRAY_LOOP_UNWIND - Suc N - 1 = 6 - N"
    by (simp add: LOOP_UNWIND_8)
  have call: "call_op2 (wrapper_op op) (res, rb) (l, lb) (r, rrb) (6 - N) log =
      Some ((res[rb + (6 - N) := ?f (rb + (6 - N))], rb), log @ [?g (6 - N)])"
    using Suc.prems by (simp add: call_op2_wrapper)
  have rec: "VectorOpUnwind_for_each2 N (wrapper_op op)
        (res[rb + (6 - N) := ?f (rb + (6 - N))], rb) (l, lb) (r, rrb) (log @ [?g (6 - N)]) =
      Some ((upd_range (res[rb + (6 - N) := ?f (rb + (6 - N))]) (rb + (7 - N)) (rb + 8) ?f, rb),
            (log @ [?g (6 - N)]) @ map ?g [7 - N..<8])"
    using Suc.prems by (intro Suc.IH) simp_all
  have "upd_range (res[rb + (6 - N) := ?f (rb + (6 - N))]) (rb + (7 - N)) (rb + 8) ?f =
      upd_range res (rb + (6 - N)) (rb + 8) ?f"
    using Suc.prems by (intro upd_range_step) simp_all
  moreover have "7 - Suc N = 6 - N"
    by simp
  moreover have "[6 - N..<8] = (6 - N) # [7 - N..<8]"
  proof -
    have "Suc (6 - N) = 7 - N" and "6 - N < 8"
      using Suc.prems by simp_all
    then show ?thesis
      using upt_rec [of "6 - N" 8] by simp
  qed
  ultimately show ?case
    by (simp only: VectorOpUnwind_for_each2.simps off call rec option.case prod.case
        append_assoc list.map append_Cons append_Nil)
qed

lemma copy_block_eq:
  assumes "rb + 8 \<le> length res" and "ab + 8 \<le> length arg"
  shows "copy_block (res, rb) (arg, ab) =
     Some (upd_range res rb (rb + 8) (\<lambda>j. arg ! (ab + (j - rb))), rb)"
  using for_each1_copy [of 7 rb res ab arg "()"] assms
  by (simp add: copy_block_def for_each_block1_def LOOP_UNWIND_8)

lemma for_each_block2_eq:
  assumes "rb + 8 \<le> length res" and "lb + 8 \<le> length l" and "rrb + 8 \<le> length r"
  shows "for_each_block2 (wrapper_op op) (res, rb) (l, lb) (r, rrb) log =
     Some ((upd_range res rb (rb + 8) (\<lambda>j. op (l ! (lb + (j - rb))) (r ! (rrb + (j - rb)))), rb),
           log @ map (\<lambda>k. (l ! (lb + k), r ! (rrb + k))) [0..<8])"
  using for_each2_wrapper [of 7 rb res lb l rrb r op log] assms
  by (simp add: for_each_block2_def LOOP_UNWIND_8)

lemma binary_vector_op_block_eq:
  assumes "i + 8 \<le> length left" and "i + 8 \<le> length right" and "i + 8 \<le> length result"
    and "length lblock = 8" and "length rblock = 8" and "length resblock = 8"
    and "unat iw = i"
  shows "binary_vector_op_block op left right (lblock, rblock, resblock) iw result log =
     Some (upd_range result i (i + 8) (\<lambda>j. op (left ! j) (right ! j)),
           log @ map (\<lambda>k. (left ! k, right ! k)) [i..<i + 8])"
proof -
  let ?lb = "upd_range lblock 0 8 (\<lambda>j. left ! (i + j))"
  let ?rb = "upd_range rblock 0 8 (\<lambda>j. right ! (i + j))"
  let ?resb = "upd_range resblock 0 8 (\<lambda>j. op (?lb ! j) (?rb ! j))"
  have c1: "copy_block (lblock, 0) (ptr_plus (left, 0) (unat iw)) = Some (?lb, 0)"
    using copy_block_eq [of 0 lblock i left] assms by (simp add: ptr_plus_def)
  have c2: "copy_block (rblock, 0) (ptr_plus (right, 0) (unat iw)) = Some (?rb, 0)"
    using copy_block_eq [of 0 rblock i right] assms by (simp add: ptr_plus_def)
  have c3: "for_each_block2 (wrapper_op op) (resblock, 0) (?lb, 0) (?rb, 0) log =
      Some ((?resb, 0), log @ map (\<lambda>k. (?lb ! k, ?rb ! k)) [0..<8])"
    using for_each_block2_eq [of 0 resblock 0 ?lb 0 ?rb op log] assms by simp
  have c4: "copy_block (ptr_plus (result, 0) (unat iw)) (?resb, 0) =
      Some (upd_range result i (i + 8) (\<lambda>j. ?resb ! (j - i)), i)"
    using copy_block_eq [of i result 0 ?resb] assms by (simp add: ptr_plus_def)
  have lb: "?lb ! k = left ! (i + k)" if "k < 8" for k
    using that assms by (simp add: nth_upd_range)
  have rb: "?rb ! k = right ! (i + k)" if "k < 8" for k
    using that assms by (simp add: nth_upd_range)
  have resb: "?resb ! k = op (left ! (i + k)) (right ! (i + k))" if "k < 8" for k
    using that assms lb rb by (simp add: nth_upd_range)
  have res: "upd_range result i (i + 8) (\<lambda>j. ?resb ! (j - i)) =
      upd_range result i (i + 8) (\<lambda>j. op (left ! j) (right ! j))"
    by (rule upd_range_cong) (simp add: resb)
  have "map (\<lambda>k. (?lb ! k, ?rb ! k)) [0..<8] = map (\<lambda>k. (left ! (i + k), right ! (i + k))) [0..<8]"
    using lb rb by simp
  also have "\<dots> = map (\<lambda>k. (left ! k, right ! k)) [i..<i + 8]"
    using arg_cong [OF map_add_upt [of i 8], of "map (\<lambda>k. (left ! k, right ! k))"]
    by (simp add: add.commute comp_def)
  finally have log: "map (\<lambda>k. (?lb ! k, ?rb ! k)) [0..<8] =
      map (\<lambda>k. (left ! k, right ! k)) [i..<i + 8]" .
  show ?thesis
    unfolding binary_vector_op_block_def
    by (simp only: fst_conv snd_conv c1 c2 c3 c4 res log option.case prod.case)
qed

declare for_each_block_loop2.simps [simp del]

lemma unat_plus_8:
  fixes i nx :: size_type
  assumes "unat i + 8 \<le> unat nx"
  shows "unat (i + 8) = unat i + 8"
proof -
  have "unat nx < 2 ^ 64"
    using unsigned_less [of nx, where ?'a = nat] by simp
  then have "unat i + unat (8 :: size_type) < 2 ^ LENGTH(64)"
    using assms by simp
  then have "unat (i + 8) = unat i + unat (8 :: size_type)"
    by (simp only: unat_add_lem)
  then show ?thesis by simp
qed

lemma unat_plus_1:
  fixes j cnt :: size_type
  assumes "unat j < unat cnt"
  shows "unat (j + 1) = unat j + 1"
proof -
  have "unat cnt < 2 ^ 64"
    using unsigned_less [of cnt, where ?'a = nat] by simp
  then have "unat j + unat (1 :: size_type) < 2 ^ LENGTH(64)"
    using assms by simp
  then have "unat (j + 1) = unat j + unat (1 :: size_type)"
    by (simp only: unat_add_lem)
  then show ?thesis by simp
qed

lemma binary_vector_op_loop_eq:
  assumes "unat i + 8 * m = unat nx"
    and "unat nx \<le> length left" and "unat nx \<le> length right" and "unat nx \<le> length result"
    and "length lblock = 8" and "length rblock = 8" and "length resblock = 8"
  shows "binary_vector_op_loop op nx left right (lblock, rblock, resblock) i result log =
     Some (nx, upd_range result (unat i) (unat nx) (\<lambda>j. op (left ! j) (right ! j)),
           log @ map (\<lambda>k. (left ! k, right ! k)) [unat i..<unat nx])"
  using assms
proof (induction m arbitrary: i result log)
  case 0
  then have "i = nx"
    by (simp add: word_unat_eq_iff)
  then show ?case
    by (subst binary_vector_op_loop.simps) (simp add: upd_range_empty)
next
  case (Suc m)
  let ?f = "\<lambda>j. op (left ! j) (right ! j)"
  let ?g = "\<lambda>k. (left ! k, right ! k)"
  let ?result' = "upd_range result (unat i) (unat i + 8) ?f"
  let ?log' = "log @ map ?g [unat i..<unat i + 8]"
  have le: "unat i + 8 \<le> unat nx"
    using Suc.prems(1) by simp
  then have less: "i < nx"
    by (simp add: word_less_nat_alt)
  have next_i: "unat (i + 8) = unat i + 8"
    using le by (rule unat_plus_8)
  have block: "binary_vector_op_block op left right (lblock, rblock, resblock) i result log =
      Some (?result', ?log')"
    using le Suc.prems by (intro binary_vector_op_block_eq) simp_all
  have rec: "binary_vector_op_loop op nx left right (lblock, rblock, resblock) (i + 8)
        ?result' ?log' =
      Some (nx, upd_range ?result' (unat (i + 8)) (unat nx) ?f,
            ?log' @ map ?g [unat (i + 8)..<unat nx])"
    using Suc.prems next_i by (intro Suc.IH) simp_all
  have res: "upd_range ?result' (unat (i + 8)) (unat nx) ?f = upd_range result (unat i) (unat nx) ?f"
    using le by (simp only: next_i) (rule upd_range_append, simp_all)
  have "[unat i..<unat nx] = [unat i..<unat i + 8] @ [unat i + 8..<unat nx]"
    using le upt_add_eq_append [of "unat i" "unat i + 8" "unat nx - (unat i + 8)"] by simp
  then have log: "?log' @ map ?g [unat (i + 8)..<unat nx] = log @ map ?g [unat i..<unat nx]"
    by (simp add: next_i)
  show ?case
    by (subst binary_vector_op_loop.simps)
      (simp only: less if_True block option.case prod.case LOOP_UNWIND_8 of_nat_numeral rec res log)
qed

lemma for_each_block_loop2_eq:
  assumes "unat j + k = unat cnt"
    and "rb + unat cnt \<le> length res" and "lb + unat cnt \<le> length l"
    and "rrb + unat cnt \<le> length r"
  shows "for_each_block_loop2 (wrapper_op op) cnt j (res, rb) (l, lb) (r, rrb) log =
     Some ((upd_range res (rb + unat j) (rb + unat cnt)
              (\<lambda>t. op (l ! (lb + (t - rb))) (r ! (rrb + (t - rb)))), rb),
           log @ map (\<lambda>t. (l ! (lb + t), r ! (rrb + t))) [unat j..<unat cnt])"
  using assms
proof (induction k arbitrary: j res log)
  case 0
  then have "j = cnt"
    by (simp add: word_unat_eq_iff)
  then show ?case
    by (subst for_each_block_loop2.simps) (simp add: upd_range_empty)
next
  case (Suc k)
  let ?f = "\<lambda>t. op (l ! (lb + (t - rb))) (r ! (rrb + (t - rb)))"
  let ?g = "\<lambda>t. (l ! (lb + t), r ! (rrb + t))"
  let ?res' = "res[rb + unat j := ?f (rb + unat j)]"
  let ?log' = "log @ [?g (unat j)]"
  have lt: "unat j < unat cnt"
    using Suc.prems(1) by simp
  then have less: "j < cnt"
    by (simp add: word_less_nat_alt)
  have next_j: "unat (j + 1) = unat j + 1"
    using lt by (rule unat_plus_1)
  have call: "call_op2 (wrapper_op op) (res, rb) (l, lb) (r, rrb) (unat j) log =
      Some ((?res', rb), ?log')"
    using lt Suc.prems by (simp add: call_op2_wrapper)
  have rec: "for_each_block_loop2 (wrapper_op op) cnt (j + 1) (?res', rb) (l, lb) (r, rrb) ?log' =
      Some ((upd_range ?res' (rb + unat (j + 1)) (rb + unat cnt) ?f, rb),
            ?log' @ map ?g [unat (j + 1)..<unat cnt])"
    using Suc.prems next_j by (intro Suc.IH) simp_all
  have res: "upd_range ?res' (rb + unat (j + 1)) (rb + unat cnt) ?f =
      upd_range res (rb + unat j) (rb + unat cnt) ?f"
    using lt next_j by (intro upd_range_step) simp_all
  have "[unat j..<unat cnt] = unat j # [unat (j + 1)..<unat cnt]"
    using lt next_j upt_rec [of "unat j" "unat cnt"] by simp
  then have log: "?log' @ map ?g [unat (j + 1)..<unat cnt] = log @ map ?g [unat j..<unat cnt]"
    by simp
  show ?case
    by (subst for_each_block_loop2.simps)
      (simp only: less if_True call option.case prod.case rec res log)
qed

lemma and_not_mask_3: "n AND NOT (mask 3) = push_bit 3 (drop_bit 3 n)" for n :: size_type
  by (rule bit_eqI) (auto simp: bit_simps)

lemma unat_take_bit_3: "unat (take_bit 3 n :: size_type) = unat n mod 8"
  by (simp add: unsigned_take_bit_eq take_bit_eq_mod unat_mod)

lemma and_index_mask: "n AND index_mask = n - take_bit 3 n"
proof -
  have "index_mask = NOT (mask 3)"
    by (simp add: index_mask_def LOOP_UNWIND_8 mask_eq_exp_minus_1)
  moreover have "push_bit 3 (drop_bit 3 n) + take_bit 3 n = n"
    by (rule bits_ident)
  ultimately show ?thesis
    using and_not_mask_3 [of n] by (simp add: algebra_simps)
qed

lemma take_bit_3_le: "take_bit 3 n \<le> n" for n :: size_type
  by (simp add: take_bit_eq_mask word_and_le2)

lemma unat_and_index_mask: "unat (n AND index_mask) = 8 * (unat n div 8)"
proof -
  have "unat (n - take_bit 3 n) = unat n - unat (take_bit 3 n)"
    using take_bit_3_le [of n] by (simp add: unat_sub)
  then have "unat (n AND index_mask) = unat n - unat n mod 8"
    by (simp only: and_index_mask unat_take_bit_3)
  then show ?thesis
    by (simp add: minus_mod_eq_mult_div)
qed

lemma unat_tail_count: "unat (n - (n AND index_mask)) = unat n mod 8"
proof -
  have "n - (n AND index_mask) = take_bit 3 n"
    by (simp add: and_index_mask)
  then show ?thesis
    by (simp only: unat_take_bit_3)
qed

lemma upd_range_prefix:
  assumes "m \<le> length result" and "m \<le> length left" and "m \<le> length right"
  shows "upd_range result 0 m (\<lambda>j. op (left ! j) (right ! j)) =
     map2 op (take m left) (take m right) @ drop m result"
  using assms by (intro nth_equalityI) (auto simp: nth_upd_range nth_append)

lemma zip_prefix:
  assumes "m \<le> length left" and "m \<le> length right"
  shows "map (\<lambda>k. (left ! k, right ! k)) [0..<m] = take m (zip left right)"
  using assms by (intro nth_equalityI) simp_all

text \<open>
  C10. For every length \<open>n\<close> and arrays \<open>left\<close>, \<open>right\<close> and \<open>result\<close> of \<open>n\<close> elements,
  \<open>binary_vector_op\<close> returns, with \<open>result[i] = op(left[i], right[i])\<close> at every index
  \<open>i < n\<close>, and it calls \<open>op\<close> once for each index (the log of the calls is the list of
  the pairs \<open>(left[i], right[i])\<close> in the order of the indices), whether or not \<open>n\<close> is a
  multiple of 8. The blocked loop ends at \<open>n & index_mask\<close>, which is the largest multiple
  of 8 that is at most \<open>n\<close>, and has done the indices below it; the loop after it is
  called for the \<open>n mod 8\<close> indices that are left.
\<close>

theorem binary_vector_op_each_index_once:
  assumes "length left = unat n" and "length right = unat n" and "length result = unat n"
    and "length lblock = TILEDARRAY_LOOP_UNWIND" and "length rblock = TILEDARRAY_LOOP_UNWIND"
    and "length resblock = TILEDARRAY_LOOP_UNWIND"
  shows "binary_vector_op n left right result op (lblock, rblock, resblock) =
           Some (map2 op left right, zip left right) \<and>
         binary_vector_op_loop op (n AND index_mask) left right (lblock, rblock, resblock)
             0 result [] =
           Some (n AND index_mask,
                 map2 op (take (8 * (unat n div 8)) left) (take (8 * (unat n div 8)) right) @
                   drop (8 * (unat n div 8)) result,
                 take (8 * (unat n div 8)) (zip left right)) \<and>
         unat (n AND index_mask) = 8 * (unat n div 8) \<and>
         unat (n - (n AND index_mask)) = unat n mod 8"
proof -
  let ?nx = "n AND index_mask"
  let ?m = "8 * (unat n div 8)"
  let ?f = "\<lambda>j. op (left ! j) (right ! j)"
  let ?g = "\<lambda>k. (left ! k, right ! k)"
  let ?r1 = "upd_range result 0 ?m ?f"
  have nx: "unat ?nx = ?m"
    by (rule unat_and_index_mask)
  have cnt: "unat (n - ?nx) = unat n mod 8"
    by (rule unat_tail_count)
  have m_le: "?m \<le> unat n"
    by simp
  have total: "?m + unat n mod 8 = unat n"
    by simp
  have blocks: "length lblock = 8" "length rblock = 8" "length resblock = 8"
    using assms by (simp_all add: LOOP_UNWIND_8)
  have loop: "binary_vector_op_loop op ?nx left right (lblock, rblock, resblock) 0 result [] =
      Some (?nx, ?r1, map ?g [0..<?m])"
    using binary_vector_op_loop_eq [of 0 "unat n div 8" ?nx left right result lblock rblock
        resblock op "[]"] assms blocks m_le
    by (simp add: nx)
  have tail: "for_each_block_loop2 (wrapper_op op) (n - ?nx) 0 (?r1, ?m) (left, ?m) (right, ?m)
        (map ?g [0..<?m]) =
      Some ((upd_range ?r1 (?m + unat (0 :: size_type)) (?m + unat (n - ?nx))
               (\<lambda>t. op (left ! (?m + (t - ?m))) (right ! (?m + (t - ?m)))), ?m),
            map ?g [0..<?m] @ map (\<lambda>t. (left ! (?m + t), right ! (?m + t)))
               [unat (0 :: size_type)..<unat (n - ?nx)])"
    using assms total by (intro for_each_block_loop2_eq [where k = "unat n mod 8"]) (simp_all add: cnt)
  have "upd_range ?r1 ?m (unat n) (\<lambda>t. op (left ! (?m + (t - ?m))) (right ! (?m + (t - ?m)))) =
      upd_range ?r1 ?m (unat n) ?f"
    by (rule upd_range_cong) simp
  also have "\<dots> = upd_range result 0 (unat n) ?f"
    using m_le by (intro upd_range_append) simp_all
  also have "\<dots> = map ?f [0..<unat n]"
    using assms by (intro upd_range_all) simp
  also have "\<dots> = map2 op left right"
    using assms by (intro nth_equalityI) simp_all
  finally have res: "upd_range ?r1 ?m (unat n)
      (\<lambda>t. op (left ! (?m + (t - ?m))) (right ! (?m + (t - ?m)))) = map2 op left right" .
  have "map (\<lambda>t. (left ! (?m + t), right ! (?m + t))) [0..<unat n mod 8] = map ?g [?m..<unat n]"
    using arg_cong [OF map_add_upt [of ?m "unat n mod 8"], of "map ?g"] total
    by (simp add: add.commute comp_def)
  then have "map ?g [0..<?m] @ map (\<lambda>t. (left ! (?m + t), right ! (?m + t))) [0..<unat n mod 8] =
      map ?g [0..<unat n]"
    using upt_add_eq_append [of 0 ?m "unat n mod 8"] total by simp
  also have "\<dots> = zip left right"
    using assms by (intro nth_equalityI) simp_all
  finally have log: "map ?g [0..<?m] @
      map (\<lambda>t. (left ! (?m + t), right ! (?m + t))) [0..<unat n mod 8] = zip left right" .
  have whole: "binary_vector_op n left right result op (lblock, rblock, resblock) =
      Some (map2 op left right, zip left right)"
    unfolding binary_vector_op_def Let_def loop for_each_block_n2_def
    using tail res log total
    by (simp add: ptr_plus_def nx cnt)
  have r1: "?r1 = map2 op (take ?m left) (take ?m right) @ drop ?m result"
    using assms m_le by (intro upd_range_prefix) simp_all
  have l1: "map ?g [0..<?m] = take ?m (zip left right)"
    using assms m_le by (intro zip_prefix) simp_all
  show ?thesis
    using whole loop nx cnt unfolding r1 l1 by simp
qed

theorem binary_vector_op_each_index_once_witness:
  "length [1, 2, 3, 4, 5, 6, 7, 8, 9, 10 :: nat] = unat (10 :: size_type) \<and>
   length (replicate 8 (0::nat)) = TILEDARRAY_LOOP_UNWIND \<and>
   binary_vector_op 10 [1, 2, 3, 4, 5, 6, 7, 8, 9, 10 :: nat]
       [10, 20, 30, 40, 50, 60, 70, 80, 90, 100 :: nat] (replicate 10 (0::nat)) (+)
       (replicate 8 0, replicate 8 0, replicate 8 0) =
     Some ([11, 22, 33, 44, 55, 66, 77, 88, 99, 110],
           [(1, 10), (2, 20), (3, 30), (4, 40), (5, 50), (6, 60), (7, 70), (8, 80),
            (9, 90), (10, 100)]) \<and>
   unat ((10 :: size_type) AND index_mask) = 8 \<and>
   unat (10 - ((10 :: size_type) AND index_mask)) = 2"
  using binary_vector_op_each_index_once [of "[1, 2, 3, 4, 5, 6, 7, 8, 9, 10 :: nat]" 10
      "[10, 20, 30, 40, 50, 60, 70, 80, 90, 100 :: nat]" "replicate 10 (0::nat)"
      "replicate 8 0" "replicate 8 0" "replicate 8 0" "(+)"]
  by (simp add: LOOP_UNWIND_8)

section \<open>\<open>LazyArrayTile\<close>\<close>

text \<open>
  C8. Serializing a \<open>LazyArrayTile\<close> never completes normally: for every lazy tile,
  forced or not, and for every archive, \<open>serialize\<close> ends in the assertion failure.
\<close>

theorem serialize_never_completes:
  "serialize t ar = Inl Assertion_failure"
  by (simp add: serialize_def TA_ASSERT_def)

lemma eval_type_times_Some:
  "lazy_op t = Some f \<Longrightarrow>
   eval_type_times k t log =
     Inr (replicate k (f (lazy_tile t) (lazy_consume t)),
          log @ replicate k (lazy_tile t, lazy_consume t))"
  by (induction k arbitrary: log) (simp_all add: eval_type_def replicate_app_Cons_same)

text \<open>
  C9, as stated, fails: nothing limits the conversions of a lazy tile to one. A tile
  that is converted twice applies its operation twice; the log of the calls holds two
  entries.
\<close>

theorem eval_type_twice_counterexample:
  "eval_type_times 2 (LazyArrayTile_make (7::nat) (Some Pair) True) [] =
     Inr ([(7, True), (7, True)], [(7, True), (7, True)])"
  by (simp add: eval_type_def LazyArrayTile_make_def numeral_2_eq_2)

text \<open>
  C9, amended. A \<open>LazyArrayTile\<close> with an operation converts on demand and keeps no
  result: each of \<open>k\<close> conversion requests calls the operation once, on the stored input
  tile and the stored consume flag, and returns what the call returns; with no request
  the operation is not called.
\<close>

theorem eval_type_each_request:
  assumes "lazy_op t = Some f"
  shows "eval_type_times k t log =
     Inr (replicate k (f (lazy_tile t) (lazy_consume t)),
          log @ replicate k (lazy_tile t, lazy_consume t))"
  using assms by (rule eval_type_times_Some)

theorem eval_type_each_request_witness:
  "lazy_op (LazyArrayTile_make (7::nat) (Some Pair) True) = Some Pair \<and>
   eval_type_times 3 (LazyArrayTile_make (7::nat) (Some Pair) True) [] =
     Inr ([(7, True), (7, True), (7, True)], [(7, True), (7, True), (7, True)])"
  using eval_type_each_request [of "LazyArrayTile_make (7::nat) (Some Pair) True" Pair 3 "[]"]
  by (simp add: LazyArrayTile_make_def numeral_3_eq_3)

section \<open>\<open>ArrayEvalImpl\<close>\<close>

text \<open>
  The loop of \<open>eval_kernel\<close> in closed form: the counter grows by the number of local
  ordinals that are not zero, and each of them adds the effect of the loop body, in the
  order of the iteration.
\<close>

lemma eval_kernel_loop_eq:
  "eval_kernel_loop impl ip its (c, evs) =
     (c + of_nat (length (filter (\<lambda>i. \<not> is_zero impl i) its)),
      evs @ map (eval_kernel_body impl ip) (filter (\<lambda>i. \<not> is_zero impl i) its))"
  by (induction its arbitrary: c evs) (simp_all add: algebra_simps)

lemma eval_kernel_eq:
  "eval_kernel impl ip =
     (of_nat (length (filter (\<lambda>i. \<not> is_zero impl i) (pmap_local impl))),
      map (eval_kernel_body impl ip) (filter (\<lambda>i. \<not> is_zero impl i) (pmap_local impl)))"
  by (simp add: eval_kernel_def eval_kernel_loop_eq)

lemma eval_kernel_body_ordinal: "effect_ordinal (eval_kernel_body impl ip i) = Some i"
  by (simp add: eval_kernel_body_def Future_get_def Let_def)

lemma eval_kernel_body_consumable:
  "effect_consumable (eval_kernel_body impl ip i) =
     Some (\<not> array_is_local impl (get_array_index impl ip i))"
  by (simp add: eval_kernel_body_def Future_get_def Let_def LazyArrayTile_make_def)


lemma example_eval_tiles:
  "eval_tiles example_impl True = Inr
     (3, [Set_tile 1 \<lparr>lazy_tile = 12, lazy_op = Some Pair, lazy_consume = True\<rparr>,
          Set_tile 2 \<lparr>lazy_tile = 11, lazy_op = Some Pair, lazy_consume = False\<rparr>,
          Task_add 3 (Future False 13) True])"
  by (simp add: eval_tiles_def TA_ASSERT_def example_impl_def dim_def eval_kernel_def eval_kernel_body_def
    Future_get_def example_inverse_def example_apply_def LazyArrayTile_make_def)

lemma example_eval_kernel:
  "snd (eval_kernel example_impl (With_permutation [1, 0])) =
     [Set_tile 1 \<lparr>lazy_tile = 12, lazy_op = Some Pair, lazy_consume = True\<rparr>,
      Set_tile 2 \<lparr>lazy_tile = 11, lazy_op = Some Pair, lazy_consume = False\<rparr>,
      Task_add 3 (Future False 13) True]"
  by (simp add: example_impl_def eval_kernel_def eval_kernel_body_def
    Future_get_def example_inverse_def example_apply_def LazyArrayTile_make_def)

lemma eval_kernel_body_tile:
  "\<exists>t. effect_tile impl (eval_kernel_body impl ip i) = Some (i, t) \<and>
       lazy_consume t = (\<not> array_is_local impl (get_array_index impl ip i))"
  by (simp add: eval_kernel_body_def Future_get_def Let_def LazyArrayTile_make_def set_tile_def)

text \<open>
  C1. In the loop of \<open>eval_kernel\<close>, every target ordinal \<open>i\<close> that is local to the
  evaluator and not structurally zero gets an effect (a stored lazy tile or a registered
  task). Every effect for \<open>i\<close> carries the consumability flag that is true if and only
  if the source tile, at the ordinal \<open>get_array_index\<close> computes for \<open>i\<close>, is not local to
  the source array; and the lazy tile that the effect puts at \<open>i\<close>, at once or through
  \<open>set_tile\<close> when the registered task runs, is marked consumable if and only if that
  source tile is not local to the source array.
\<close>

theorem eval_kernel_consumable_iff_not_local:
  assumes "i \<in> set (pmap_local impl)" and "\<not> is_zero impl i"
  shows "(\<exists>e \<in> set (snd (eval_kernel impl ip)). effect_ordinal e = Some i) \<and>
         (\<forall>e \<in> set (snd (eval_kernel impl ip)). effect_ordinal e = Some i \<longrightarrow>
            effect_consumable e = Some (\<not> array_is_local impl (get_array_index impl ip i)) \<and>
            (\<exists>t. effect_tile impl e = Some (i, t) \<and>
               lazy_consume t = (\<not> array_is_local impl (get_array_index impl ip i))))"
proof
  have "eval_kernel_body impl ip i \<in> set (snd (eval_kernel impl ip))"
    using assms by (simp add: eval_kernel_eq)
  then show "\<exists>e \<in> set (snd (eval_kernel impl ip)). effect_ordinal e = Some i"
    using eval_kernel_body_ordinal by blast
next
  show "\<forall>e \<in> set (snd (eval_kernel impl ip)). effect_ordinal e = Some i \<longrightarrow>
            effect_consumable e = Some (\<not> array_is_local impl (get_array_index impl ip i)) \<and>
            (\<exists>t. effect_tile impl e = Some (i, t) \<and>
               lazy_consume t = (\<not> array_is_local impl (get_array_index impl ip i)))"
  proof (intro ballI impI)
    fix e
    assume "e \<in> set (snd (eval_kernel impl ip))" and ord: "effect_ordinal e = Some i"
    then obtain j where e: "e = eval_kernel_body impl ip j"
      by (auto simp: eval_kernel_eq)
    with ord have "j = i"
      by (simp add: eval_kernel_body_ordinal)
    with e show "effect_consumable e = Some (\<not> array_is_local impl (get_array_index impl ip i)) \<and>
        (\<exists>t. effect_tile impl e = Some (i, t) \<and>
           lazy_consume t = (\<not> array_is_local impl (get_array_index impl ip i)))"
      using eval_kernel_body_consumable [of impl ip i] eval_kernel_body_tile [of impl ip i]
      by simp
  qed
qed

theorem eval_kernel_consumable_iff_not_local_witness:
  "3 \<in> set (pmap_local example_impl) \<and> \<not> is_zero example_impl 3 \<and>
   snd (eval_kernel example_impl (With_permutation [1, 0])) =
     [Set_tile 1 \<lparr>lazy_tile = 12, lazy_op = Some Pair, lazy_consume = True\<rparr>,
      Set_tile 2 \<lparr>lazy_tile = 11, lazy_op = Some Pair, lazy_consume = False\<rparr>,
      Task_add 3 (Future False 13) True] \<and>
   get_array_index example_impl (With_permutation [1, 0]) 3 = 3 \<and>
   \<not> array_is_local example_impl 3 \<and>
   effect_consumable (Task_add 3 (Future False (13 :: nat)) True) = Some True \<and>
   effect_tile example_impl (Task_add 3 (Future False 13) True) =
     Some (3, \<lparr>lazy_tile = 13, lazy_op = Some Pair, lazy_consume = True\<rparr>)"
proof -
  have "3 \<in> set (pmap_local example_impl)" and "\<not> is_zero example_impl 3"
    by (simp_all add: example_impl_def)
  then have "\<exists>e \<in> set (snd (eval_kernel example_impl (With_permutation [1, 0]))).
      effect_ordinal e = Some 3"
    using eval_kernel_consumable_iff_not_local [of 3 example_impl "With_permutation [1, 0]"]
    by blast
  then show ?thesis
    using example_eval_kernel
    by (simp add: example_impl_def example_apply_def example_inverse_def set_tile_def
        LazyArrayTile_make_def)
qed

text \<open>
  C2. For every process map with fewer than \<open>2^64\<close> local ordinals and every shape,
  \<open>eval_tiles\<close>, called with the pointer to the evaluator itself (so that its assertion
  holds), returns, and the count it returns is the number of local ordinals that
  are not structurally zero (the length of the filtered iteration; the cardinality of the
  set of such ordinals when the iteration yields each ordinal once). The effects are
  about exactly these ordinals, in order: nothing is stored or registered for an ordinal
  that is structurally zero.
\<close>

theorem eval_tiles_task_count:
  assumes "length (pmap_local impl) < 2 ^ 64"
  shows "\<exists>n effects. eval_tiles impl True = Inr (n, effects) \<and>
           unat n = length (filter (\<lambda>i. \<not> is_zero impl i) (pmap_local impl)) \<and>
           map effect_ordinal effects = map Some (filter (\<lambda>i. \<not> is_zero impl i) (pmap_local impl)) \<and>
           (distinct (pmap_local impl) \<longrightarrow>
              unat n = card {i \<in> set (pmap_local impl). \<not> is_zero impl i})"
proof -
  let ?nz = "filter (\<lambda>i. \<not> is_zero impl i) (pmap_local impl)"
  have len: "length ?nz < 2 ^ 64"
    using assms length_filter_le [of "\<lambda>i. \<not> is_zero impl i" "pmap_local impl"] by linarith
  have un: "unat (word_of_nat (length ?nz) :: size_type) = length ?nz"
    using len by (simp add: unat_of_nat)
  have card: "card {i \<in> set (pmap_local impl). \<not> is_zero impl i} = length ?nz"
    if "distinct (pmap_local impl)"
    using that distinct_card [of ?nz] by simp
  have et: "eval_tiles impl True =
      Inr (word_of_nat (length ?nz),
           map (eval_kernel_body impl
                  (if dim (perm impl) > 1 then With_permutation (perm_neg impl (perm impl))
                   else NoPermutation)) ?nz)"
    by (simp add: eval_tiles_def TA_ASSERT_def eval_kernel_eq)
  have ords: "map effect_ordinal (map (eval_kernel_body impl ip) ?nz) = map Some ?nz" for ip
    by (simp add: eval_kernel_body_ordinal comp_def)
  show ?thesis
  proof (intro exI conjI impI)
    show "eval_tiles impl True = Inr (word_of_nat (length ?nz),
           map (eval_kernel_body impl
                  (if dim (perm impl) > 1 then With_permutation (perm_neg impl (perm impl))
                   else NoPermutation)) ?nz)"
      by (rule et)
    show "unat (word_of_nat (length ?nz) :: size_type) = length ?nz"
      by (rule un)
    show "map effect_ordinal (map (eval_kernel_body impl
                  (if dim (perm impl) > 1 then With_permutation (perm_neg impl (perm impl))
                   else NoPermutation)) ?nz) = map Some ?nz"
      by (rule ords)
    show "unat (word_of_nat (length ?nz) :: size_type) =
        card {i \<in> set (pmap_local impl). \<not> is_zero impl i}"
      if "distinct (pmap_local impl)"
      using un card [OF that] by simp
  qed
qed

theorem eval_tiles_task_count_witness:
  "length (pmap_local example_impl) < 2 ^ 64 \<and>
   eval_tiles example_impl True = Inr
     (3, [Set_tile 1 \<lparr>lazy_tile = 12, lazy_op = Some Pair, lazy_consume = True\<rparr>,
          Set_tile 2 \<lparr>lazy_tile = 11, lazy_op = Some Pair, lazy_consume = False\<rparr>,
          Task_add 3 (Future False 13) True]) \<and>
   length (filter (\<lambda>i. \<not> is_zero example_impl i) (pmap_local example_impl)) = 3"
  using eval_tiles_task_count [of example_impl] example_eval_tiles
  by (simp add: example_impl_def)

text \<open>
  C3. For every local target ordinal \<open>i\<close> that is not structurally zero, \<open>eval_tiles\<close>
  produces an effect for \<open>i\<close>, and every effect for \<open>i\<close> puts at \<open>i\<close> a lazy tile that
  holds the source tile found at the source ordinal: the ordinal, in the range of the
  source array, of the image of the multi-index of \<open>i\<close> under the inverse permutation
  when the permutation has more than one dimension, and \<open>i\<close> itself otherwise (no
  permutation, or the permutation of a single dimension). Converting that lazy tile
  applies the operation to this source tile.
\<close>

theorem eval_tiles_source_tile:
  assumes "i \<in> set (pmap_local impl)" and "\<not> is_zero impl i"
  shows "\<exists>n effects. eval_tiles impl True = Inr (n, effects) \<and>
           (\<exists>e \<in> set effects. effect_ordinal e = Some i) \<and>
           (\<forall>e \<in> set effects. effect_ordinal e = Some i \<longrightarrow>
              (let array_index =
                     (if dim (perm impl) > 1
                      then array_range_ord impl
                             (perm_apply impl (perm_neg impl (perm impl)) (range_idx impl i))
                      else i);
                   source = future_value (array_find impl array_index)
               in \<exists>t. effect_tile impl e = Some (i, t) \<and> lazy_tile t = source \<and>
                    eval_type t log = Inr (shared_op impl source (lazy_consume t),
                                           log @ [(source, lazy_consume t)])))"
proof -
  define ip where "ip = (if dim (perm impl) > 1
      then With_permutation (perm_neg impl (perm impl)) else NoPermutation)"
  have et: "eval_tiles impl True = Inr (eval_kernel impl ip)"
    by (simp add: eval_tiles_def TA_ASSERT_def ip_def)
  have idx: "get_array_index impl ip i =
     (if dim (perm impl) > 1
      then array_range_ord impl (perm_apply impl (perm_neg impl (perm impl)) (range_idx impl i))
      else i)"
    by (simp add: ip_def)
  have body: "\<exists>t. effect_tile impl (eval_kernel_body impl ip j) = Some (j, t) \<and>
      lazy_tile t = future_value (array_find impl (get_array_index impl ip j)) \<and>
      eval_type t log =
        Inr (shared_op impl (future_value (array_find impl (get_array_index impl ip j)))
               (lazy_consume t),
             log @ [(future_value (array_find impl (get_array_index impl ip j)), lazy_consume t)])"
    for j
    by (simp add: eval_kernel_body_def Future_get_def Let_def LazyArrayTile_make_def
        set_tile_def eval_type_def)
  have ex: "\<exists>e \<in> set (snd (eval_kernel impl ip)). effect_ordinal e = Some i"
    using assms eval_kernel_body_ordinal [of impl ip i] by (auto simp: eval_kernel_eq)
  have all: "\<forall>e \<in> set (snd (eval_kernel impl ip)). effect_ordinal e = Some i \<longrightarrow>
     (\<exists>t. effect_tile impl e = Some (i, t) \<and>
      lazy_tile t = future_value (array_find impl (get_array_index impl ip i)) \<and>
      eval_type t log =
        Inr (shared_op impl (future_value (array_find impl (get_array_index impl ip i)))
               (lazy_consume t),
             log @ [(future_value (array_find impl (get_array_index impl ip i)), lazy_consume t)]))"
    using body by (auto simp: eval_kernel_eq eval_kernel_body_ordinal)
  show ?thesis
    using ex all unfolding et idx Let_def
    by (cases "eval_kernel impl ip") simp
qed

theorem eval_tiles_source_tile_witness:
  "1 \<in> set (pmap_local example_impl) \<and> \<not> is_zero example_impl 1 \<and>
   eval_tiles example_impl True = Inr
     (3, [Set_tile 1 \<lparr>lazy_tile = 12, lazy_op = Some Pair, lazy_consume = True\<rparr>,
          Set_tile 2 \<lparr>lazy_tile = 11, lazy_op = Some Pair, lazy_consume = False\<rparr>,
          Task_add 3 (Future False 13) True]) \<and>
   array_range_ord example_impl
     (perm_apply example_impl (perm_neg example_impl (perm example_impl))
        (range_idx example_impl 1)) = 2 \<and>
   future_value (array_find example_impl 2) = 12 \<and>
   eval_type \<lparr>lazy_tile = 12, lazy_op = Some Pair, lazy_consume = True\<rparr> [] =
     Inr ((12::nat, True), [(12, True)])"
  using eval_tiles_source_tile [of 1 example_impl "[]"] example_eval_tiles
  by (simp add: example_impl_def example_apply_def example_inverse_def eval_type_def)

section \<open>\<open>UnaryWrapper\<close> and \<open>invoke\<close>\<close>

lemma invoke1_differs: "invoke1 Apply a \<noteq> invoke1 Consume a"
proof -
  have "Apply \<noteq> Consume"
    by (metis op_call.distinct(3))
  then show ?thesis
    by (cases a) simp_all
qed

lemma invoke2_differs: "invoke2 Apply_perm a p \<noteq> invoke1 Consume a"
proof -
  have "(\<lambda>x. Apply_perm x p) \<noteq> Consume"
    by (metis op_call.distinct(5))
  then show ?thesis
    by (cases a) simp_all
qed

text \<open>
  C4. Applied to a lazy tile that comes from a stored array, \<open>UnaryWrapper\<close> forces the
  tile first (the operation is handed \<open>cast arg\<close>). With a permutation it takes the
  permuting application, whatever the consumable mark of the tile; with no permutation
  it takes the consuming variant of the operation when the tile is marked consumable and
  the plain application when it is not. On the operation that records its calls, the
  consuming variant is the member called exactly when there is no permutation and the
  tile is marked consumable.
\<close>

theorem call_array_tile_paths:
  "(Permutation_bool (wrapped_perm w) \<longrightarrow>
      call_array_tile w cast is_consumable arg =
        invoke2 (op_apply_perm (wrapped_op w)) (cast arg) (wrapped_perm w)) \<and>
   (\<not> Permutation_bool (wrapped_perm w) \<and> is_consumable arg \<longrightarrow>
      call_array_tile w cast is_consumable arg = invoke1 (op_consume (wrapped_op w)) (cast arg)) \<and>
   (\<not> Permutation_bool (wrapped_perm w) \<and> \<not> is_consumable arg \<longrightarrow>
      call_array_tile w cast is_consumable arg = invoke1 (op_apply (wrapped_op w)) (cast arg)) \<and>
   ((call_array_tile (UnaryWrapper_make recording_op (wrapped_perm w)) cast is_consumable arg =
       invoke1 Consume (cast arg)) =
    (\<not> Permutation_bool (wrapped_perm w) \<and> is_consumable arg))"
proof -
  have "(call_array_tile (UnaryWrapper_make recording_op (wrapped_perm w)) cast is_consumable arg =
       invoke1 Consume (cast arg)) =
    (\<not> Permutation_bool (wrapped_perm w) \<and> is_consumable arg)"
  proof -
    have "call_array_tile (UnaryWrapper_make recording_op (wrapped_perm w)) cast is_consumable arg =
        (if Permutation_bool (wrapped_perm w)
         then invoke2 Apply_perm (cast arg) (wrapped_perm w)
         else if is_consumable arg then invoke1 Consume (cast arg)
         else invoke1 Apply (cast arg))"
      by (simp add: call_array_tile_def UnaryWrapper_make_def recording_op_def)
    then show ?thesis
      by (simp add: invoke1_differs invoke2_differs)
  qed
  then show ?thesis
    by (simp add: call_array_tile_def)
qed

theorem call_array_tile_paths_witness:
  "call_array_tile (UnaryWrapper_make recording_op [1, 0]) Plain snd (5::nat, True) =
     Direct (Apply_perm (5, True) [1, 0]) \<and>
   call_array_tile (UnaryWrapper_make_noperm recording_op) Plain snd (5::nat, True) =
     Direct (Consume (5, True)) \<and>
   call_array_tile (UnaryWrapper_make_noperm recording_op) Plain snd (5::nat, False) =
     Direct (Apply (5, False))"
  using call_array_tile_paths [of "UnaryWrapper_make recording_op [1, 0]" Plain snd "(5::nat, True)"]
    call_array_tile_paths [of "UnaryWrapper_make_noperm recording_op" Plain snd "(5::nat, True)"]
    call_array_tile_paths [of "UnaryWrapper_make_noperm recording_op" Plain snd "(5::nat, False)"]
  by (simp add: UnaryWrapper_make_def UnaryWrapper_make_noperm_def recording_op_def
      Permutation_bool_def)





section \<open>\<open>ReduceTask\<close> and \<open>ReducePairTask\<close>\<close>

lemma tree_fold_plus: "tree_fold (+) 0 xs = sum_list xs" for xs :: "int list"
proof (induction "(+) :: int \<Rightarrow> int \<Rightarrow> int" "0 :: int" xs rule: tree_fold.induct)
  case (3 x y zs)
  let ?xs = "x # y # zs"
  let ?h = "length ?xs div 2"
  have "sum_list (take ?h ?xs) + sum_list (drop ?h ?xs) = sum_list (take ?h ?xs @ drop ?h ?xs)"
    by (simp only: sum_list_append)
  also have "\<dots> = sum_list ?xs"
    by (simp only: append_take_drop_id)
  finally show ?case
    using 3 by (simp only: tree_fold.simps)
qed simp_all

lemma resolved_append: "resolved (xs @ ys) = resolved xs @ resolved ys"
  by (simp add: resolved_def)

lemma resolved_simps [simp]:
  "resolved [] = []" "resolved (None # xs) = resolved xs" "resolved (Some v # xs) = v # resolved xs"
  by (simp_all add: resolved_def)

lemma resolved_map_Some: "resolved (map Some vs) = vs"
  by (induction vs) simp_all

lemma resolved_update:
  assumes "k < length xs" and "xs ! k = None"
  shows "mset (resolved (xs[k := Some v])) = add_mset v (mset (resolved xs))"
proof -
  have "xs = take k xs @ None # drop (Suc k) xs"
    using assms by (metis id_take_nth_drop)
  moreover have "xs[k := Some v] = take k xs @ Some v # drop (Suc k) xs"
    using assms by (simp add: upd_conv_take_nth_drop)
  ultimately have "mset (resolved (xs[k := Some v])) =
      mset (resolved (take k xs)) + add_mset v (mset (resolved (drop (Suc k) xs)))"
    and "mset (resolved xs) = mset (resolved (take k xs)) + mset (resolved (drop (Suc k) xs))"
    by (metis resolved_append resolved_simps(3) mset_append mset.simps(2),
        metis resolved_append resolved_simps(2) mset_append)
  then show ?thesis by simp
qed

lemma resolved_all: "list_all (\<lambda>x. x \<noteq> None) xs \<Longrightarrow> length (resolved xs) = length xs"
  by (induction xs) auto

lemma reduce_step_arrived:
  assumes "reduce_step c rt = Inr rt'" and "mset (arrived rt) = mset (resolved (operands rt))"
  shows "mset (arrived rt') = mset (resolved (operands rt'))"
proof (cases c)
  case (Set_future k v)
  with assms show ?thesis
    by (auto simp: set_future_def resolved_update split: if_splits)
qed (use assms in \<open>auto simp: add_value_def add_future_def submit_def resolved_append
      split: if_splits\<close>)

lemma reduce_run_arrived:
  assumes "reduce_run cs rt = Inr rt'" and "mset (arrived rt) = mset (resolved (operands rt))"
  shows "mset (arrived rt') = mset (resolved (operands rt'))"
  using assms
proof (induction cs arbitrary: rt)
  case (Cons c cs)
  then show ?case
    by (auto split: sum.splits dest: reduce_step_arrived)
qed simp

lemma reduce_step_closed:
  assumes "reduce_step c rt = Inr rt'" and "submitted rt"
  shows "submitted rt' \<and> length (operands rt') = length (operands rt)"
  using assms
  by (cases c) (auto simp: add_value_def add_future_def submit_def set_future_def split: if_splits)

lemma reduce_run_closed:
  assumes "reduce_run cs rt = Inr rt'" and "submitted rt"
  shows "submitted rt' \<and> length (operands rt') = length (operands rt)"
  using assms
proof (induction cs arbitrary: rt)
  case (Cons c cs)
  then show ?case
    by (auto split: sum.splits dest: reduce_step_closed)
qed simp

lemma reduce_run_append:
  "reduce_run (cs @ cs') rt =
     (case reduce_run cs rt of Inl e \<Rightarrow> Inl e | Inr rt' \<Rightarrow> reduce_run cs' rt')"
  by (induction cs arbitrary: rt) (simp_all split: sum.splits)

lemma sum_0_99: "sum_list (map int [0..<100]) = 4950"
  by (simp add: upt_rec)

lemma ReduceTask_new_arrived:
  "mset (arrived ReduceTask_new) = mset (resolved (operands ReduceTask_new))"
  by (simp add: ReduceTask_new_def)

text \<open>
  C6. A reduce task with the combine function \<open>+\<close> and the identity 0 whose operands, once
  all have arrived, are the integers 0 to 99: whatever calls the client made, and in
  whatever order the operands were added and resolved, the result handle yields 4950; and
  at every point of the run at which fewer than 100 operands have been supplied, the
  probe of the result handle is false.
\<close>

theorem reduce_task_sum_0_99:
  assumes "reduce_run (cs @ cs') ReduceTask_new = Inr rt"
    and "reduce_run cs ReduceTask_new = Inr rt'"
    and "submitted rt"
    and "operands rt = map Some vs"
    and "mset vs = mset (map int [0..<100])"
  shows "result_get (+) 0 rt = Some 4950 \<and>
         (length (arrived rt') < 100 \<longrightarrow> \<not> result_probe rt')"
proof
  have arr: "mset (arrived rt) = mset vs"
    using reduce_run_arrived [OF assms(1) ReduceTask_new_arrived] assms(4)
    by (simp add: resolved_map_Some)
  have "sum_list (arrived rt) = sum_mset (mset (arrived rt))"
    by (simp only: sum_mset_sum_list)
  also have "\<dots> = sum_list (map int [0..<100])"
    by (simp only: arr assms(5) sum_mset_sum_list)
  finally have "tree_fold (+) 0 (arrived rt) = 4950"
    by (simp only: tree_fold_plus sum_0_99)
  moreover have "result_probe rt"
    using assms(3,4) by (simp add: result_probe_def list_all_iff)
  ultimately show "result_get (+) 0 rt = Some 4950"
    by (simp add: result_get_def)
next
  have len: "length (operands rt) = 100"
    using assms(4,5) mset_eq_length [of vs "map int [0..<100]"] by simp
  have rest: "reduce_run cs' rt' = Inr rt"
    using assms(1,2) by (simp add: reduce_run_append)
  show "length (arrived rt') < 100 \<longrightarrow> \<not> result_probe rt'"
  proof (intro impI notI)
    assume few: "length (arrived rt') < 100" and ready: "result_probe rt'"
    have "length (operands rt') = 100"
      using reduce_run_closed [OF rest] ready len by (simp add: result_probe_def)
    moreover have "length (resolved (operands rt')) = length (operands rt')"
      using ready by (simp add: result_probe_def resolved_all)
    moreover have "length (arrived rt') = length (resolved (operands rt'))"
      using reduce_run_arrived [OF assms(2) ReduceTask_new_arrived] by (rule mset_eq_length)
    ultimately show False
      using few by simp
  qed
qed

lemma run_add_values:
  "\<not> submitted rt \<Longrightarrow>
   reduce_run (map Add_value vs) rt =
     Inr (rt\<lparr>operands := operands rt @ map Some vs, arrived := arrived rt @ vs\<rparr>)"
  by (induction vs arbitrary: rt) (simp_all add: add_value_def)

lemma length_example_values: "length example_values = 99"
  by (simp add: example_values_def)

lemma example_run_before: "reduce_run example_calls ReduceTask_new = Inr example_before_last"
  by (simp add: example_calls_def example_before_last_def ReduceTask_new_def reduce_run_append
      run_add_values add_future_def submit_def)

lemma example_run_all:
  "reduce_run (example_calls @ example_last_call) ReduceTask_new = Inr example_final"
  by (simp add: reduce_run_append example_run_before example_last_call_def
      example_before_last_def example_final_def set_future_def nth_append list_update_append
      length_example_values)

lemma example_operands: "mset (example_values @ [0]) = mset (map int [0..<100])"
  using upt_conv_Cons [of 0 100] by (simp add: example_values_def)

theorem reduce_task_sum_0_99_witness:
  "reduce_run (example_calls @ example_last_call) ReduceTask_new = Inr example_final \<and>
   reduce_run example_calls ReduceTask_new = Inr example_before_last \<and>
   submitted example_final \<and>
   operands example_final = map Some (example_values @ [0]) \<and>
   mset (example_values @ [0]) = mset (map int [0..<100]) \<and>
   result_get (+) 0 example_final = Some 4950 \<and>
   length (arrived example_before_last) < 100 \<and>
   \<not> result_probe example_before_last"
proof -
  have "result_get (+) 0 example_final = Some 4950 \<and>
      (length (arrived example_before_last) < 100 \<longrightarrow> \<not> result_probe example_before_last)"
    using example_run_all example_run_before example_operands
    by (intro reduce_task_sum_0_99 [of example_calls example_last_call example_final
          example_before_last "example_values @ [0]"])
      (simp_all add: example_final_def)
  moreover have "length (arrived example_before_last) < 100"
    by (simp add: example_before_last_def length_example_values)
  moreover have "submitted example_final"
    and "operands example_final = map Some (example_values @ [0])"
    by (simp_all add: example_final_def)
  ultimately show ?thesis
    using example_run_all example_run_before example_operands by simp
qed

lemma tree_fold_pairs_ReduceOp:
  "tree_fold_pairs ReduceOp ps = sum_list (map (\<lambda>(a, b). a * b) ps)"
proof (induction ReduceOp ps rule: tree_fold_pairs.induct)
  case (4 p q r ps)
  let ?ps = "p # q # r # ps"
  let ?h = "length ?ps div 2"
  let ?s = "\<lambda>xs. sum_list (map (\<lambda>(a, b). a * b) xs)"
  have "?s (take ?h ?ps) + ?s (drop ?h ?ps) = ?s (take ?h ?ps @ drop ?h ?ps)"
    by (simp only: map_append sum_list_append)
  also have "\<dots> = ?s ?ps"
    by (simp only: append_take_drop_id)
  finally have "?s (take ?h ?ps) + ?s (drop ?h ?ps) = ?s ?ps" .
  moreover have "op_result ReduceOp x y = x + y" for x y
    by (simp add: ReduceOp_def)
  ultimately show ?case
    using 4 by (simp only: tree_fold_pairs.simps)
qed (simp_all add: ReduceOp_def)

lemma concat_map_update:
  assumes "k < length xs"
  shows "mset (concat (map g (xs[k := z]))) + mset (g (xs ! k)) =
         mset (concat (map g xs)) + mset (g z)"
proof -
  have "xs = take k xs @ xs ! k # drop (Suc k) xs"
    using assms by (simp add: id_take_nth_drop)
  then have "mset (concat (map g xs)) =
      mset (concat (map g (take k xs))) + mset (g (xs ! k)) +
      mset (concat (map g (drop (Suc k) xs)))"
    by (metis concat.simps(2) concat_append list.simps(9) map_append mset_append add.assoc)
  moreover have "xs[k := z] = take k xs @ z # drop (Suc k) xs"
    using assms by (simp add: upd_conv_take_nth_drop)
  then have "mset (concat (map g (xs[k := z]))) =
      mset (concat (map g (take k xs))) + mset (g z) + mset (concat (map g (drop (Suc k) xs)))"
    by (metis concat.simps(2) concat_append list.simps(9) map_append mset_append add.assoc)
  ultimately show ?thesis
    by simp
qed

lemma sum_list_map_mset_cong:
  fixes f :: "'a \<Rightarrow> int"
  assumes "mset xs = mset ys"
  shows "sum_list (map f xs) = sum_list (map f ys)"
proof -
  have "mset (map f xs) = mset (map f ys)"
    using assms by (simp only: mset_map)
  then have "sum_mset (mset (map f xs)) = sum_mset (mset (map f ys))"
    by (rule arg_cong)
  then show ?thesis
    by (simp only: sum_mset_sum_list)
qed

lemma pair_step_arrived:
  assumes "pair_step c rt = Inr rt'"
    and "mset (pairs_arrived rt) = mset (concat (map complete_pair (pair_operands rt)))"
  shows "mset (pairs_arrived rt') = mset (concat (map complete_pair (pair_operands rt')))"
proof (cases c)
  case (Add_pair x y)
  with assms show ?thesis
    by (auto simp: add_pair_def split: if_splits)
next
  case (Set_first k v)
  let ?ops = "pair_operands rt"
  from assms Set_first have k: "k < length ?ops" and none: "fst (?ops ! k) = None"
    and rt': "rt' = rt\<lparr>pair_operands := ?ops[k := (Some v, snd (?ops ! k))],
        pairs_arrived := pairs_arrived rt @ complete_pair (Some v, snd (?ops ! k))\<rparr>"
    by (auto simp: set_first_def split: if_splits)
  have "complete_pair (?ops ! k) = []"
    using none by (cases "?ops ! k") simp
  then show ?thesis
    using concat_map_update [OF k, of complete_pair "(Some v, snd (?ops ! k))"] assms(2)
    by (simp add: rt')
next
  case (Set_second k v)
  let ?ops = "pair_operands rt"
  from assms Set_second have k: "k < length ?ops" and none: "snd (?ops ! k) = None"
    and rt': "rt' = rt\<lparr>pair_operands := ?ops[k := (fst (?ops ! k), Some v)],
        pairs_arrived := pairs_arrived rt @ complete_pair (fst (?ops ! k), Some v)\<rparr>"
    by (auto simp: set_second_def split: if_splits)
  have "complete_pair (?ops ! k) = []"
    using none by (cases "?ops ! k"; cases "fst (?ops ! k)") simp_all
  then show ?thesis
    using concat_map_update [OF k, of complete_pair "(fst (?ops ! k), Some v)"] assms(2)
    by (simp add: rt')
next
  case Submit_pairs
  with assms show ?thesis
    by (auto simp: submit_pairs_def split: if_splits)
qed

lemma pair_run_arrived:
  assumes "pair_run cs rt = Inr rt'"
    and "mset (pairs_arrived rt) = mset (concat (map complete_pair (pair_operands rt)))"
  shows "mset (pairs_arrived rt') = mset (concat (map complete_pair (pair_operands rt')))"
  using assms
proof (induction cs arbitrary: rt)
  case (Cons c cs)
  then show ?case
    by (auto split: sum.splits dest: pair_step_arrived)
qed simp

lemma complete_pairs_map: "concat (map complete_pair (map (\<lambda>(a, b). (Some a, Some b)) ps)) = ps"
  by (induction ps) auto

lemma sum_squares_0_99: "sum_list (map (\<lambda>(a, b). a * b) (map (\<lambda>i. (int i, int i)) [0..<100])) = 328350"
  by (simp add: upt_rec)

text \<open>
  C7. A pair reduce task with the operation \<open>ReduceOp\<close> of the tests whose pairs, once all
  have arrived, are \<open>(i, i)\<close> for \<open>i\<close> from 0 to 99: whatever calls the client made, and in
  whatever order the pairs arrived, the result is the sum of the squares, 328350.
\<close>

theorem reduce_pair_task_sum_squares:
  assumes "pair_run cs ReducePairTask_new = Inr rt"
    and "pairs_submitted rt"
    and "pair_operands rt = map (\<lambda>(a, b). (Some a, Some b)) ps"
    and "mset ps = mset (map (\<lambda>i. (int i, int i)) [0..<100])"
  shows "pairs_result_get ReduceOp rt = Some 328350"
proof -
  let ?s = "\<lambda>xs. sum_list (map (\<lambda>(a, b). a * b) xs)"
  have "mset (pairs_arrived (ReducePairTask_new :: (int, int) ReducePairTask)) =
      mset (concat (map complete_pair (pair_operands (ReducePairTask_new :: (int, int) ReducePairTask))))"
    by (simp add: ReducePairTask_new_def)
  from pair_run_arrived [OF assms(1) this]
  have "mset (pairs_arrived rt) = mset (concat (map complete_pair (pair_operands rt)))" .
  also have "\<dots> = mset ps"
    by (simp only: assms(3) complete_pairs_map)
  finally have arr: "mset (pairs_arrived rt) = mset (map (\<lambda>i. (int i, int i)) [0..<100])"
    by (simp only: assms(4))
  have "?s (pairs_arrived rt) = ?s (map (\<lambda>i. (int i, int i)) [0..<100])"
    using arr by (rule sum_list_map_mset_cong)
  then have "tree_fold_pairs ReduceOp (pairs_arrived rt) = 328350"
    by (simp only: tree_fold_pairs_ReduceOp sum_squares_0_99)
  moreover have "pairs_result_probe rt"
    using assms(2,3) by (auto simp: pairs_result_probe_def list_all_iff)
  ultimately show ?thesis
    by (simp add: pairs_result_get_def)
qed

lemma run_add_pairs:
  "\<not> pairs_submitted rt \<Longrightarrow>
   pair_run (map (\<lambda>(a, b). Add_pair (Some a) (Some b)) ps) rt =
     Inr (rt\<lparr>pair_operands := pair_operands rt @ map (\<lambda>(a, b). (Some a, Some b)) ps,
             pairs_arrived := pairs_arrived rt @ ps\<rparr>)"
  by (induction ps arbitrary: rt) (auto simp: add_pair_def)

lemma pair_run_append:
  "pair_run (cs @ cs') rt =
     (case pair_run cs rt of Inl e \<Rightarrow> Inl e | Inr rt' \<Rightarrow> pair_run cs' rt')"
  by (induction cs arbitrary: rt) (simp_all split: sum.splits)

lemma length_example_pairs: "length example_pairs = 99"
  by (simp add: example_pairs_def)

lemma example_pair_run: "pair_run example_pair_calls ReducePairTask_new = Inr example_pairs_final"
  by (simp add: example_pair_calls_def example_pairs_final_def ReducePairTask_new_def
      pair_run_append run_add_pairs add_pair_def submit_pairs_def set_first_def set_second_def
      nth_append list_update_append length_example_pairs)

lemma example_pair_operands:
  "mset (example_pairs @ [(0, 0)]) = mset (map (\<lambda>i. (int i, int i)) [0..<100])"
  using upt_conv_Cons [of 0 100] by (simp add: example_pairs_def)

theorem reduce_pair_task_sum_squares_witness:
  "pair_run example_pair_calls ReducePairTask_new = Inr example_pairs_final \<and>
   pairs_submitted example_pairs_final \<and>
   pair_operands example_pairs_final =
     map (\<lambda>(a, b). (Some a, Some b)) (example_pairs @ [(0, 0)]) \<and>
   mset (example_pairs @ [(0, 0)]) = mset (map (\<lambda>i. (int i, int i)) [0..<100]) \<and>
   pairs_result_get ReduceOp example_pairs_final = Some 328350"
proof -
  have "pairs_result_get ReduceOp example_pairs_final = Some 328350"
    using example_pair_run example_pair_operands
    by (intro reduce_pair_task_sum_squares [of example_pair_calls example_pairs_final
          "example_pairs @ [(0, 0)]"])
      (simp_all add: example_pairs_final_def)
  moreover have "pairs_submitted example_pairs_final"
    and "pair_operands example_pairs_final =
      map (\<lambda>(a, b). (Some a, Some b)) (example_pairs @ [(0, 0)])"
    by (simp_all add: example_pairs_final_def)
  ultimately show ?thesis
    using example_pair_run example_pair_operands by simp
qed

end
